theory Spec2Isabelle
  imports Main
begin

section \<open>Connect Four: the board, its cells and the game controller\<close>

text \<open>
  The program is one JavaScript file, \<^verbatim>\<open>src/index.js\<close>, with three factory functions:
  \<^verbatim>\<open>Cell\<close>, \<^verbatim>\<open>GameBoard\<close> and \<^verbatim>\<open>GameController\<close>. Their private, mutable
  state (closure variables) is passed explicitly here: a function that mutates the board
  takes the board and returns the board it leaves behind. A JavaScript exception is a value
  \<open>Inl e\<close>; the state returned beside it is the state at the moment of the throw.
  Console output is not modelled, except that the result of \<^verbatim>\<open>playRound\<close> names the
  message it logged.
\<close>

subsection \<open>Cell\<close>

text \<open>
  A \<^verbatim>\<open>Cell\<close> holds one number: \<open>0\<close> for no token, otherwise the token that
  \<^verbatim>\<open>addToken\<close> stored. Every cell of a board is an object of its own (no aliasing), so a
  cell is modelled by its value and the board by a list of rows.
\<close>

type_synonym grid = "nat list list"

datatype error = TypeError

definition Cell :: nat where
  "Cell = 0"

subsection \<open>GameBoard\<close>

text \<open>
  \<^verbatim>\<open>GameBoard()\<close> declares no formal parameter; \<^verbatim>\<open>rows\<close> and \<^verbatim>\<open>columns\<close> are the
  constants 6 and 7 of its body. The two nested loops push one fresh cell per position.
\<close>

definition GameBoard :: grid where
  "GameBoard = (let rows = 6; columns = 7 in map (\<lambda>i. map (\<lambda>j. Cell) [0..<columns]) [0..<rows])"

text \<open>
  JavaScript discards the actual arguments of a call beyond the formal parameters of the
  function. \<^verbatim>\<open>GameBoard\<close> has none, so a call \<^verbatim>\<open>GameBoard(rows, columns)\<close> runs the
  same body and returns normally.
\<close>

definition GameBoardCall :: "int \<Rightarrow> int \<Rightarrow> error + grid" where
  "GameBoardCall requestedRows requestedColumns = Inr GameBoard"

text \<open>
  \<^verbatim>\<open>row[column]\<close>: the element of the row, or \<^verbatim>\<open>undefined\<close> (\<open>None\<close>) when the
  index is not one of the row's.
\<close>

definition cellOf :: "nat list \<Rightarrow> int \<Rightarrow> nat option" where
  "cellOf row column =
     (if 0 \<le> column \<and> column < int (length row) then Some (row ! nat column) else None)"

text \<open>
  \<^verbatim>\<open>board.filter((row) => row[column].getValue() === 0)\<close>: the rows whose cell in the
  column is empty, in board order. Calling \<^verbatim>\<open>getValue\<close> on \<^verbatim>\<open>undefined\<close> throws a
  TypeError, which ends the filter.
\<close>

fun filterEmpty :: "int \<Rightarrow> grid \<Rightarrow> error + grid" where
  "filterEmpty column [] = Inr []"
| "filterEmpty column (row # rest) =
     (case cellOf row column of
        None \<Rightarrow> Inl TypeError
      | Some v \<Rightarrow>
          (case filterEmpty column rest of
             Inl e \<Rightarrow> Inl e
           | Inr kept \<Rightarrow> Inr (if v = 0 then row # kept else kept)))"

definition availableCells :: "int \<Rightarrow> grid \<Rightarrow> error + nat list" where
  "availableCells column b =
     (case filterEmpty column b of
        Inl e \<Rightarrow> Inl e
      | Inr kept \<Rightarrow> Inr (map (\<lambda>row. row ! nat column) kept))"

text \<open>
  \<^verbatim>\<open>board[lowestRow][column].addToken(player)\<close>: the one write of the program. A row or
  a cell that does not exist would throw before anything is written.
\<close>

definition addToken :: "nat \<Rightarrow> int \<Rightarrow> nat \<Rightarrow> grid \<Rightarrow> (error + unit) \<times> grid" where
  "addToken lowestRow column player b =
     (if lowestRow < length b \<and> 0 \<le> column \<and> column < int (length (b ! lowestRow))
      then (Inr (), b[lowestRow := (b ! lowestRow)[nat column := player]])
      else (Inl TypeError, b))"

text \<open>
  \<^verbatim>\<open>dropToken(column, player)\<close>. Both of its exits (the early \<^verbatim>\<open>return\<close> and the end
  of the body) return \<^verbatim>\<open>undefined\<close>, the \<open>()\<close> here. The filter reads only, so a throw
  in it leaves the board as it was.
\<close>

definition dropToken :: "int \<Rightarrow> nat \<Rightarrow> grid \<Rightarrow> (error + unit) \<times> grid" where
  "dropToken column player b =
     (case availableCells column b of
        Inl e \<Rightarrow> (Inl e, b)
      | Inr cells \<Rightarrow>
          if length cells = 0 then (Inr (), b)
          else (let lowestRow = length cells - 1 in addToken lowestRow column player b))"

text \<open>
  A sequence of \<^verbatim>\<open>dropToken\<close> calls on one board, each given as (column, player). The
  board lives on after a call that threw.
\<close>

fun dropTokens :: "(int \<times> nat) list \<Rightarrow> grid \<Rightarrow> grid" where
  "dropTokens [] b = b"
| "dropTokens ((column, player) # calls) b = dropTokens calls (snd (dropToken column player b))"

subsection \<open>GameController\<close>

record player =
  name :: string
  token :: nat

record game =
  board :: grid
  players :: "player list"
  activePlayer :: player

text \<open>
  \<^verbatim>\<open>GameController(playerOneName = 'Player One', playerTwoName = 'Player Two')\<close>: a
  default applies when the argument is missing (\<open>None\<close>).
\<close>

definition GameController :: "string option \<Rightarrow> string option \<Rightarrow> game" where
  "GameController playerOneName playerTwoName =
     (let ps = [\<lparr>name = (case playerOneName of None \<Rightarrow> ''Player One'' | Some n \<Rightarrow> n), token = 1\<rparr>,
                \<lparr>name = (case playerTwoName of None \<Rightarrow> ''Player Two'' | Some n \<Rightarrow> n), token = 2\<rparr>]
      in \<lparr>board = GameBoard, players = ps, activePlayer = ps ! 0\<rparr>)"

text \<open>
  \<^verbatim>\<open>activePlayer === players[0]\<close> compares object identity. The two player objects
  differ in their token, so equality of the records decides the same.
\<close>

definition switchPlayerTurn :: "game \<Rightarrow> game" where
  "switchPlayerTurn s =
     s\<lparr>activePlayer := (if activePlayer s = players s ! 0 then players s ! 1 else players s ! 0)\<rparr>"

definition getActivePlayer :: "game \<Rightarrow> player" where
  "getActivePlayer s = activePlayer s"

text \<open>
  \<^verbatim>\<open>board[r][c].getValue()\<close>: a TypeError when the row or the cell does not exist.
\<close>

definition getValue :: "grid \<Rightarrow> int \<Rightarrow> int \<Rightarrow> error + nat" where
  "getValue b r c =
     (if 0 \<le> r \<and> r < int (length b) \<and> 0 \<le> c \<and> c < int (length (b ! nat r))
      then Inr (b ! nat r ! nat c) else Inl TypeError)"

definition directions :: "(int \<times> int) list" where
  "directions = [(0, 1), (1, 0), (1, 1), (1, - 1)]"

text \<open>
  The innermost loop of \<^verbatim>\<open>checkWin\<close>, \<^verbatim>\<open>for (let i = 0; i < 4; i++)\<close>, over the
  remaining values of \<open>i\<close>, with the running \<open>count\<close>. The guard is evaluated left to
  right: the cell is read only at an index inside the board.
\<close>

fun countLoop :: "grid \<Rightarrow> nat \<Rightarrow> nat \<Rightarrow> nat \<Rightarrow> nat \<Rightarrow> nat \<Rightarrow> int \<Rightarrow> int \<Rightarrow> nat list \<Rightarrow> nat \<Rightarrow> error + nat" where
  "countLoop b rows cols tok r c dr dc [] count = Inr count"
| "countLoop b rows cols tok r c dr dc (i # is) count =
     (let rowIndex = int r + dr * int i; colIndex = int c + dc * int i in
      if rowIndex \<ge> 0 \<and> rowIndex < int rows \<and> colIndex \<ge> 0 \<and> colIndex < int cols then
        (case getValue b rowIndex colIndex of
           Inl e \<Rightarrow> Inl e
         | Inr v \<Rightarrow> countLoop b rows cols tok r c dr dc is (if v = tok then count + 1 else count))
      else countLoop b rows cols tok r c dr dc is count)"

text \<open>
  \<^verbatim>\<open>for ([dr, dc] of directions)\<close>: \<open>Inr True\<close> is the \<^verbatim>\<open>return true\<close> of
  \<^verbatim>\<open>checkWin\<close>, \<open>Inr False\<close> the end of the loop. (The loop variables have no
  declaration; the file is a plain script, where the assignment creates them.)
\<close>

fun directionsLoop :: "grid \<Rightarrow> nat \<Rightarrow> nat \<Rightarrow> nat \<Rightarrow> nat \<Rightarrow> nat \<Rightarrow> (int \<times> int) list \<Rightarrow> error + bool" where
  "directionsLoop b rows cols tok r c [] = Inr False"
| "directionsLoop b rows cols tok r c ((dr, dc) # ds) =
     (case countLoop b rows cols tok r c dr dc [0..<4] 0 of
        Inl e \<Rightarrow> Inl e
      | Inr count \<Rightarrow>
          if count \<ge> 4 then Inr True else directionsLoop b rows cols tok r c ds)"

text \<open>\<^verbatim>\<open>for (let c = 0; c < cols; c++)\<close> of \<^verbatim>\<open>checkWin\<close>, with its \<^verbatim>\<open>continue\<close>.\<close>

fun winColumnLoop :: "grid \<Rightarrow> nat \<Rightarrow> nat \<Rightarrow> nat \<Rightarrow> nat \<Rightarrow> nat list \<Rightarrow> error + bool" where
  "winColumnLoop b rows cols tok r [] = Inr False"
| "winColumnLoop b rows cols tok r (c # cs) =
     (case getValue b (int r) (int c) of
        Inl e \<Rightarrow> Inl e
      | Inr v \<Rightarrow>
          if v \<noteq> tok then winColumnLoop b rows cols tok r cs
          else
            (case directionsLoop b rows cols tok r c directions of
               Inl e \<Rightarrow> Inl e
             | Inr True \<Rightarrow> Inr True
             | Inr False \<Rightarrow> winColumnLoop b rows cols tok r cs))"

text \<open>\<^verbatim>\<open>for (let r = 0; r < rows; r++)\<close> of \<^verbatim>\<open>checkWin\<close>.\<close>

fun winRowLoop :: "grid \<Rightarrow> nat \<Rightarrow> nat \<Rightarrow> nat \<Rightarrow> nat list \<Rightarrow> error + bool" where
  "winRowLoop b rows cols tok [] = Inr False"
| "winRowLoop b rows cols tok (r # rs) =
     (case winColumnLoop b rows cols tok r [0..<cols] of
        Inl e \<Rightarrow> Inl e
      | Inr True \<Rightarrow> Inr True
      | Inr False \<Rightarrow> winRowLoop b rows cols tok rs)"

text \<open>
  \<^verbatim>\<open>checkWin(board)\<close>; \<open>tok\<close> is \<^verbatim>\<open>getActivePlayer().token\<close>, which the closure reads.
  \<^verbatim>\<open>board[0].length\<close> throws on a board without rows.
\<close>

definition checkWin :: "nat \<Rightarrow> grid \<Rightarrow> error + bool" where
  "checkWin tok b =
     (case b of
        [] \<Rightarrow> Inl TypeError
      | row0 # _ \<Rightarrow>
          (let rows = length b; cols = length row0 in winRowLoop b rows cols tok [0..<rows]))"

text \<open>The two loops of \<^verbatim>\<open>checkTie\<close>, counting the empty cells.\<close>

fun tieColumnLoop :: "grid \<Rightarrow> nat \<Rightarrow> nat list \<Rightarrow> nat \<Rightarrow> error + nat" where
  "tieColumnLoop b r [] count = Inr count"
| "tieColumnLoop b r (c # cs) count =
     (case getValue b (int r) (int c) of
        Inl e \<Rightarrow> Inl e
      | Inr v \<Rightarrow> tieColumnLoop b r cs (if v = 0 then count + 1 else count))"

fun tieRowLoop :: "grid \<Rightarrow> nat \<Rightarrow> nat list \<Rightarrow> nat \<Rightarrow> error + nat" where
  "tieRowLoop b cols [] count = Inr count"
| "tieRowLoop b cols (r # rs) count =
     (case tieColumnLoop b r [0..<cols] count of
        Inl e \<Rightarrow> Inl e
      | Inr count' \<Rightarrow> tieRowLoop b cols rs count')"

definition checkTie :: "grid \<Rightarrow> error + bool" where
  "checkTie b =
     (case b of
        [] \<Rightarrow> Inl TypeError
      | row0 # _ \<Rightarrow>
          (let rows = length b; cols = length row0 in
           case tieRowLoop b cols [0..<rows] 0 of
             Inl e \<Rightarrow> Inl e
           | Inr count \<Rightarrow> if count = 0 then Inr True else Inr False))"

text \<open>
  \<^verbatim>\<open>playRound(column)\<close> returns \<^verbatim>\<open>undefined\<close> on each of its three paths; what tells
  them apart is the message it logs, named by the \<open>outcome\<close>: "... won!", "No more cells.
  It's a Tie!", or the new round's "...'s turn.".
\<close>

datatype outcome = Won | Tied | NextRound

definition playRound :: "int \<Rightarrow> game \<Rightarrow> (error + outcome) \<times> game" where
  "playRound column s =
     (case dropToken column (token (getActivePlayer s)) (board s) of
        (Inl e, b) \<Rightarrow> (Inl e, s\<lparr>board := b\<rparr>)
      | (Inr _, b) \<Rightarrow>
          (let s1 = s\<lparr>board := b\<rparr> in
           case checkWin (token (getActivePlayer s1)) (board s1) of
             Inl e \<Rightarrow> (Inl e, s1)
           | Inr True \<Rightarrow> (Inr Won, s1)
           | Inr False \<Rightarrow>
               (case checkTie (board s1) of
                  Inl e \<Rightarrow> (Inl e, s1)
                | Inr True \<Rightarrow> (Inr Tied, s1)
                | Inr False \<Rightarrow> (Inr NextRound, switchPlayerTurn s1))))"

text \<open>A sequence of \<^verbatim>\<open>playRound\<close> calls on one game, each given by its column.\<close>

fun playRounds :: "int list \<Rightarrow> game \<Rightarrow> game" where
  "playRounds [] s = s"
| "playRounds (column # cs) s = playRounds cs (snd (playRound column s))"

subsection \<open>The properties, in the words of the specification\<close>

text \<open>A grid whose rows all have the width of the first one, and that has a row.\<close>

definition rectangular :: "grid \<Rightarrow> bool" where
  "rectangular b = (b \<noteq> [] \<and> (\<forall>row \<in> set b. length row = length (b ! 0)))"

text \<open>The position (r, c) is a cell of the grid, and the cell holds the token.\<close>

definition cellMatches :: "nat \<Rightarrow> grid \<Rightarrow> int \<Rightarrow> int \<Rightarrow> bool" where
  "cellMatches tok b r c =
     (0 \<le> r \<and> r < int (length b) \<and> 0 \<le> c \<and> c < int (length (b ! 0)) \<and> b ! nat r ! nat c = tok)"

text \<open>
  Four consecutive cells holding the token, from a cell (r, c) of the grid along one of the
  four directions.
\<close>

definition lineOfFour :: "nat \<Rightarrow> grid \<Rightarrow> bool" where
  "lineOfFour tok b =
     (\<exists>r \<in> set [0..<length b]. \<exists>c \<in> set [0..<length (b ! 0)]. \<exists>(dr, dc) \<in> set directions.
        \<forall>i \<in> set [0..<4]. cellMatches tok b (int r + dr * int i) (int c + dc * int i))"

text \<open>The grid contains zero empty cells.\<close>

definition noEmptyCell :: "grid \<Rightarrow> bool" where
  "noEmptyCell b = (\<forall>row \<in> set b. \<forall>v \<in> set row. v \<noteq> 0)"

text \<open>
  Gravity: in no column is there an empty cell below an occupied one (row 0 is the top, so
  below is the greater row index).
\<close>

definition gravity :: "grid \<Rightarrow> bool" where
  "gravity b =
     (\<forall>c \<in> set [0..<length (b ! 0)]. \<forall>r' \<in> set [0..<length b]. \<forall>r \<in> set [0..<r'].
        b ! r ! c \<noteq> 0 \<longrightarrow> b ! r' ! c \<noteq> 0)"

text \<open>The number of empty cells of a column.\<close>

definition emptyCount :: "grid \<Rightarrow> nat \<Rightarrow> nat" where
  "emptyCount b c = length (filter (\<lambda>row. row ! c = 0) b)"


text \<open>
  A game of 41 rounds from a new controller. Player one completes a vertical line in column 0
  with the seventh round; \<^verbatim>\<open>playRound\<close> does not switch the turn after a win, so the
  later rounds drop player one's token too. One cell, the top of column 5, stays empty.
\<close>

definition fullGame :: "int list" where
  "fullGame = [0, 6, 0, 6, 0, 6, 0, 0, 0, 6, 6, 6,
               1, 1, 1, 1, 1, 1, 2, 2, 2, 2, 2, 2, 3, 3, 3, 3, 3, 3,
               4, 4, 4, 4, 4, 4, 5, 5, 5, 5, 5]"

text \<open>
  What holds of every game that \<^verbatim>\<open>playRound\<close> calls reach from a new controller: the board
  is 6 by 7 and obeys gravity, every cell is 0, 1 or 2, the two players hold the tokens 1 and
  2, and the active player is one of them.
\<close>

definition gameInvariant :: "game \<Rightarrow> bool" where
  "gameInvariant s =
     (rectangular (board s) \<and> gravity (board s) \<and>
      length (board s) = 6 \<and> length (board s ! 0) = 7 \<and>
      (\<forall>row \<in> set (board s). \<forall>v \<in> set row. v = 0 \<or> v = 1 \<or> v = 2) \<and>
      length (players s) = 2 \<and> token (players s ! 0) = 1 \<and> token (players s ! 1) = 2 \<and>
      (activePlayer s = players s ! 0 \<or> activePlayer s = players s ! 1))"

section \<open>Proofs\<close>

subsection \<open>What dropToken does\<close>

lemma filterEmpty_valid:
  "\<forall>row \<in> set b. 0 \<le> column \<and> column < int (length row) \<Longrightarrow>
   filterEmpty column b = Inr (filter (\<lambda>row. row ! nat column = 0) b)"
  by (induction b) (simp_all add: cellOf_def)

lemma filterEmpty_invalid:
  "\<exists>row \<in> set b. \<not> (0 \<le> column \<and> column < int (length row)) \<Longrightarrow>
   filterEmpty column b = Inl TypeError"
proof (induction b)
  case Nil
  then show ?case by simp
next
  case (Cons row rest)
  show ?case
  proof (cases "cellOf row column")
    case None
    then show ?thesis by simp
  next
    case (Some v)
    then have "0 \<le> column \<and> column < int (length row)"
      by (simp add: cellOf_def split: if_splits)
    with Cons.prems have "\<exists>row \<in> set rest. \<not> (0 \<le> column \<and> column < int (length row))"
      by auto
    then have "filterEmpty column rest = Inl TypeError" by (rule Cons.IH)
    with Some show ?thesis by simp
  qed
qed

lemma availableCells_valid:
  "\<forall>row \<in> set b. 0 \<le> column \<and> column < int (length row) \<Longrightarrow>
   \<exists>cells. availableCells column b = Inr cells \<and> length cells = length (filter (\<lambda>row. row ! nat column = 0) b)"
  by (simp add: availableCells_def filterEmpty_valid)

lemma dropToken_valid:
  assumes "\<forall>row \<in> set b. 0 \<le> column \<and> column < int (length row)"
  shows "dropToken column player b =
     (let k = length (filter (\<lambda>row. row ! nat column = 0) b) in
      if k = 0 then (Inr (), b) else (Inr (), b[k - 1 := (b ! (k - 1))[nat column := player]]))"
proof -
  let ?k = "length (filter (\<lambda>row. row ! nat column = 0) b)"
  obtain cells where c: "availableCells column b = Inr cells" "length cells = ?k"
    using availableCells_valid[OF assms] by blast
  show ?thesis
  proof (cases "?k = 0")
    case True
    with c show ?thesis by (simp add: dropToken_def)
  next
    case False
    have "?k \<le> length b" by (rule length_filter_le)
    with False have lt: "?k - 1 < length b" by arith
    then have "b ! (?k - 1) \<in> set b" by simp
    with assms have "0 \<le> column \<and> column < int (length (b ! (?k - 1)))" by blast
    with c False lt show ?thesis
      by (simp add: dropToken_def addToken_def Let_def)
  qed
qed

lemma dropToken_invalid:
  assumes "\<exists>row \<in> set b. \<not> (0 \<le> column \<and> column < int (length row))"
  shows "dropToken column player b = (Inl TypeError, b)"
  using filterEmpty_invalid[OF assms] by (simp add: dropToken_def availableCells_def)

lemma rectangular_nonempty: "rectangular b \<Longrightarrow> 0 < length b"
  unfolding rectangular_def by blast

lemma rectangular_width: "rectangular b \<Longrightarrow> r < length b \<Longrightarrow> length (b ! r) = length (b ! 0)"
  unfolding rectangular_def using nth_mem by blast

lemma rectangular_valid:
  "rectangular b \<Longrightarrow> 0 \<le> column \<Longrightarrow> column < int (length (b ! 0)) \<Longrightarrow>
   \<forall>row \<in> set b. 0 \<le> column \<and> column < int (length row)"
  unfolding rectangular_def by metis

lemma rectangular_invalid:
  "rectangular b \<Longrightarrow> \<not> (0 \<le> column \<and> column < int (length (b ! 0))) \<Longrightarrow>
   \<exists>row \<in> set b. \<not> (0 \<le> column \<and> column < int (length row))"
proof -
  assume r: "rectangular b" and n: "\<not> (0 \<le> column \<and> column < int (length (b ! 0)))"
  from rectangular_nonempty[OF r] have "b ! 0 \<in> set b" by (rule nth_mem)
  with n show ?thesis by blast
qed

lemma gravity_iff:
  "gravity b = (\<forall>c r r'. c < length (b ! 0) \<and> r < r' \<and> r' < length b \<and> b ! r ! c \<noteq> 0 \<longrightarrow> b ! r' ! c \<noteq> 0)"
proof
  assume g: "gravity b"
  show "\<forall>c r r'. c < length (b ! 0) \<and> r < r' \<and> r' < length b \<and> b ! r ! c \<noteq> 0 \<longrightarrow> b ! r' ! c \<noteq> 0"
  proof (intro allI impI)
    fix c r r'
    assume a: "c < length (b ! 0) \<and> r < r' \<and> r' < length b \<and> b ! r ! c \<noteq> 0"
    then have "c \<in> set [0..<length (b ! 0)]" "r' \<in> set [0..<length b]" "r \<in> set [0..<r']"
      by simp_all
    with g a show "b ! r' ! c \<noteq> 0" unfolding gravity_def by blast
  qed
next
  assume "\<forall>c r r'. c < length (b ! 0) \<and> r < r' \<and> r' < length b \<and> b ! r ! c \<noteq> 0 \<longrightarrow> b ! r' ! c \<noteq> 0"
  then show "gravity b" unfolding gravity_def by simp
qed

lemma zero_prefix:
  fixes xs :: "nat list"
  assumes "\<forall>i j. i < j \<and> j < length xs \<and> xs ! i \<noteq> 0 \<longrightarrow> xs ! j \<noteq> 0"
    and "i < length xs"
  shows "(xs ! i = 0) = (i < length (filter (\<lambda>v. v = 0) xs))"
  using assms
proof (induction xs arbitrary: i)
  case Nil
  then show ?case by simp
next
  case (Cons x xs)
  have tl: "\<forall>i j. i < j \<and> j < length xs \<and> xs ! i \<noteq> 0 \<longrightarrow> xs ! j \<noteq> 0"
  proof (intro allI impI)
    fix i j assume "i < j \<and> j < length xs \<and> xs ! i \<noteq> 0"
    then have "Suc i < Suc j \<and> Suc j < length (x # xs) \<and> (x # xs) ! Suc i \<noteq> 0" by simp
    with Cons.prems(1) have "(x # xs) ! Suc j \<noteq> 0" by blast
    then show "xs ! j \<noteq> 0" by simp
  qed
  show ?case
  proof (cases "x = 0")
    case True
    show ?thesis
    proof (cases i)
      case 0
      with True show ?thesis by simp
    next
      case (Suc i')
      with Cons.prems(2) have "i' < length xs" by simp
      from Cons.IH[OF tl this] True Suc show ?thesis by simp
    qed
  next
    case False
    have nz: "\<forall>j < length xs. xs ! j \<noteq> 0"
    proof (intro allI impI)
      fix j assume "j < length xs"
      with False have "0 < Suc j \<and> Suc j < length (x # xs) \<and> (x # xs) ! 0 \<noteq> 0" by simp
      with Cons.prems(1) have "(x # xs) ! Suc j \<noteq> 0" by blast
      then show "xs ! j \<noteq> 0" by simp
    qed
    then have "filter (\<lambda>v. v = 0) xs = []"
      by (auto simp: filter_empty_conv in_set_conv_nth)
    with False nz Cons.prems(2) show ?thesis by (cases i) auto
  qed
qed

lemma column_filter:
  "length (filter (\<lambda>row. row ! c = 0) b) = length (filter (\<lambda>v. v = (0::nat)) (map (\<lambda>row. row ! c) b))"
  by (simp add: filter_map comp_def)

lemma column_empty_iff:
  assumes "gravity b" and "c < length (b ! 0)" and "r < length b"
  shows "(b ! r ! c = 0) = (r < length (filter (\<lambda>row. row ! c = 0) b))"
proof -
  let ?col = "map (\<lambda>row. row ! c) b"
  have "\<forall>i j. i < j \<and> j < length ?col \<and> ?col ! i \<noteq> 0 \<longrightarrow> ?col ! j \<noteq> 0"
    using assms(1,2) by (auto simp: gravity_iff)
  moreover have "r < length ?col" using assms(3) by simp
  ultimately have "(?col ! r = 0) = (r < length (filter (\<lambda>v. v = 0) ?col))"
    by (rule zero_prefix)
  with assms(3) show ?thesis by (simp add: column_filter)
qed

lemma nth_drop_update:
  assumes "r < length b" and "c < length (b ! r)"
  shows "b[k := (b ! k)[c' := p]] ! r ! c = (if r = k \<and> c = c' then p else b ! r ! c)"
proof (cases "k < length b")
  case True
  with assms show ?thesis by (cases "r = k") (auto simp: nth_list_update)
next
  case False
  with assms show ?thesis by auto
qed

lemma rectangular_update:
  assumes "rectangular b"
  shows "rectangular (b[k := (b ! k)[c := p]])" and "length (b[k := (b ! k)[c := p]] ! 0) = length (b ! 0)"
proof -
  let ?b' = "b[k := (b ! k)[c := p]]"
  have len: "\<forall>r < length b. length (?b' ! r) = length (b ! r)"
    by (cases "k < length b") (simp_all add: nth_list_update)
  from assms have "0 < length b" by (rule rectangular_nonempty)
  with len show w: "length (?b' ! 0) = length (b ! 0)" by simp
  have "\<forall>r < length ?b'. length (?b' ! r) = length (?b' ! 0)"
  proof (intro allI impI)
    fix r assume "r < length ?b'"
    then have r: "r < length b" by simp
    with len have "length (?b' ! r) = length (b ! r)" by blast
    moreover have "length (b ! r) = length (b ! 0)" by (rule rectangular_width[OF assms r])
    ultimately show "length (?b' ! r) = length (?b' ! 0)" using w by linarith
  qed
  then have "\<forall>row \<in> set ?b'. length row = length (?b' ! 0)"
    unfolding all_set_conv_all_nth .
  moreover have "?b' \<noteq> []" using rectangular_nonempty[OF assms] by simp
  ultimately show "rectangular ?b'" unfolding rectangular_def by blast
qed

lemma dropToken_cases:
  assumes "rectangular b"
  shows "dropToken column player b =
     (if \<not> (0 \<le> column \<and> column < int (length (b ! 0))) then (Inl TypeError, b)
      else let k = length (filter (\<lambda>row. row ! nat column = 0) b) in
        if k = 0 then (Inr (), b) else (Inr (), b[k - 1 := (b ! (k - 1))[nat column := player]]))"
proof (cases "0 \<le> column \<and> column < int (length (b ! 0))")
  case True
  then have "\<forall>row \<in> set b. 0 \<le> column \<and> column < int (length row)"
    using rectangular_valid[OF assms] by blast
  from dropToken_valid[OF this] True show ?thesis by simp
next
  case False
  from dropToken_invalid[OF rectangular_invalid[OF assms False]] False show ?thesis by simp
qed

lemma dropToken_rectangular:
  assumes "rectangular b"
  shows "rectangular (snd (dropToken column player b))"
    and "length (snd (dropToken column player b)) = length b"
    and "length (snd (dropToken column player b) ! 0) = length (b ! 0)"
proof -
  let ?k = "length (filter (\<lambda>row. row ! nat column = 0) b) - 1"
  have "snd (dropToken column player b) = b \<or>
        snd (dropToken column player b) = b[?k := (b ! ?k)[nat column := player]]"
    by (simp add: dropToken_cases[OF assms] Let_def)
  then consider (same) "snd (dropToken column player b) = b"
    | (upd) "snd (dropToken column player b) = b[?k := (b ! ?k)[nat column := player]]"
    by blast
  then have "rectangular (snd (dropToken column player b)) \<and>
     length (snd (dropToken column player b)) = length b \<and>
     length (snd (dropToken column player b) ! 0) = length (b ! 0)"
  proof cases
    case same
    show ?thesis unfolding same using assms by simp
  next
    case upd
    show ?thesis unfolding upd
      using rectangular_update[OF assms, of ?k "nat column" player] by simp
  qed
  then show "rectangular (snd (dropToken column player b))"
    and "length (snd (dropToken column player b)) = length b"
    and "length (snd (dropToken column player b) ! 0) = length (b ! 0)"
    by blast+
qed

lemma gravity_update:
  assumes rect: "rectangular b" and g: "gravity b" and c: "c < length (b ! 0)"
    and k: "0 < length (filter (\<lambda>row. row ! c = 0) b)"
  shows "gravity (b[length (filter (\<lambda>row. row ! c = 0) b) - 1 :=
            (b ! (length (filter (\<lambda>row. row ! c = 0) b) - 1))[c := p]])"
proof -
  let ?k = "length (filter (\<lambda>row. row ! c = 0) b)"
  let ?b' = "b[?k - 1 := (b ! (?k - 1))[c := p]]"
  have w: "length (?b' ! 0) = length (b ! 0)" by (rule rectangular_update(2)[OF rect])
  show ?thesis
    unfolding gravity_iff
  proof (intro allI impI)
    fix c' r r'
    assume a: "c' < length (?b' ! 0) \<and> r < r' \<and> r' < length ?b' \<and> ?b' ! r ! c' \<noteq> 0"
    then have c': "c' < length (b ! 0)" and rr: "r < r'" and r': "r' < length b" and r: "r < length b"
      using w by auto
    have wr: "c' < length (b ! r)" "c' < length (b ! r')"
      using rectangular_width[OF rect] c' r r' by auto
    have n: "?b' ! r ! c' = (if r = ?k - 1 \<and> c' = c then p else b ! r ! c')"
      "?b' ! r' ! c' = (if r' = ?k - 1 \<and> c' = c then p else b ! r' ! c')"
      using nth_drop_update[OF r wr(1)] nth_drop_update[OF r' wr(2)] by auto
    show "?b' ! r' ! c' \<noteq> 0"
    proof (cases "c' = c")
      case False
      with n a g c' rr r' show ?thesis by (auto simp: gravity_iff)
    next
      case True
      have e: "(b ! r ! c = 0) = (r < ?k)" "(b ! r' ! c = 0) = (r' < ?k)"
        using column_empty_iff[OF g c] r r' by auto
      show ?thesis
      proof (cases "r = ?k - 1")
        case True
        with rr k have "\<not> r' < ?k" "r' \<noteq> ?k - 1" by arith+
        with n e \<open>c' = c\<close> show ?thesis by simp
      next
        case False
        with n a \<open>c' = c\<close> have "b ! r ! c \<noteq> 0" by simp
        with e have "\<not> r < ?k" by simp
        with rr have "\<not> r' < ?k" "r' \<noteq> ?k - 1" by arith+
        with n e \<open>c' = c\<close> show ?thesis by simp
      qed
    qed
  qed
qed

lemma dropToken_gravity:
  assumes "rectangular b" and "gravity b"
  shows "gravity (snd (dropToken column player b))"
proof (cases "0 \<le> column \<and> column < int (length (b ! 0)) \<and> 0 < length (filter (\<lambda>row. row ! nat column = 0) b)")
  case True
  then have "nat column < length (b ! 0)" by linarith
  from gravity_update[OF assms this] True show ?thesis
    by (simp add: dropToken_cases[OF assms(1)] Let_def)
next
  case False
  with assms(2) show ?thesis
    by (auto simp add: dropToken_cases[OF assms(1)] Let_def)
qed

subsection \<open>The boards that dropToken calls reach\<close>

lemma GameBoard_eq: "GameBoard = replicate 6 (replicate 7 0)"
  by (simp add: GameBoard_def Cell_def map_replicate_const)

lemma GameBoard_rectangular: "rectangular GameBoard"
  by (simp add: GameBoard_eq rectangular_def numeral_eq_Suc)

lemma GameBoard_size: "length GameBoard = 6" "length (GameBoard ! 0) = 7"
  by (simp_all add: GameBoard_eq)

lemma GameBoard_gravity: "gravity GameBoard"
  by (simp add: gravity_iff GameBoard_eq)

lemma dropTokens_invariant:
  "rectangular b \<Longrightarrow> gravity b \<Longrightarrow>
   rectangular (dropTokens calls b) \<and> gravity (dropTokens calls b) \<and>
   length (dropTokens calls b) = length b \<and> length (dropTokens calls b ! 0) = length (b ! 0)"
proof (induction calls arbitrary: b)
  case Nil
  then show ?case by simp
next
  case (Cons call calls)
  obtain column player where call: "call = (column, player)" by (cases call)
  let ?b1 = "snd (dropToken column player b)"
  have "rectangular ?b1" "gravity ?b1" "length ?b1 = length b" "length (?b1 ! 0) = length (b ! 0)"
    using dropToken_rectangular[OF Cons.prems(1)] dropToken_gravity[OF Cons.prems] by blast+
  with Cons.IH[of ?b1] call show ?case by simp
qed

lemma reachable_board:
  "rectangular (dropTokens calls GameBoard)" "gravity (dropTokens calls GameBoard)"
  "length (dropTokens calls GameBoard) = 6" "length (dropTokens calls GameBoard ! 0) = 7"
  using dropTokens_invariant[OF GameBoard_rectangular GameBoard_gravity, of calls] GameBoard_size
  by simp_all

lemma emptyCount_pos: "(0 < emptyCount b c) = (\<exists>r < length b. b ! r ! c = 0)"
proof -
  have "(0 < emptyCount b c) = (\<exists>row \<in> set b. row ! c = 0)"
    by (simp add: emptyCount_def filter_empty_conv)
  also have "\<dots> = (\<exists>r < length b. b ! r ! c = 0)"
    by (metis in_set_conv_nth)
  finally show ?thesis .
qed

lemma emptyCount_le: "emptyCount b c \<le> length b"
  by (simp add: emptyCount_def)

text \<open>An accepted drop under gravity: the written cell is the lowest empty one.\<close>

lemma accepted_drop:
  assumes rect: "rectangular b" and g: "gravity b"
    and c: "0 \<le> column" "column < int (length (b ! 0))"
    and k: "0 < emptyCount b (nat column)"
  shows "emptyCount b (nat column) - 1 < length b"
    and "b ! (emptyCount b (nat column) - 1) ! nat column = 0"
    and "\<forall>r'. emptyCount b (nat column) - 1 < r' \<and> r' < length b \<longrightarrow> b ! r' ! nat column \<noteq> 0"
    and "dropToken column player b =
          (Inr (), b[emptyCount b (nat column) - 1 :=
                       (b ! (emptyCount b (nat column) - 1))[nat column := player]])"
proof -
  let ?c = "nat column"
  let ?k = "emptyCount b ?c"
  from c have cw: "?c < length (b ! 0)" by linarith
  from k emptyCount_le[of b ?c] show lt: "?k - 1 < length b" by arith
  have e: "\<And>r. r < length b \<Longrightarrow> (b ! r ! ?c = 0) = (r < ?k)"
    using column_empty_iff[OF g cw] by (simp add: emptyCount_def)
  from e[OF lt] k show "b ! (?k - 1) ! ?c = 0" by simp
  show "\<forall>r'. ?k - 1 < r' \<and> r' < length b \<longrightarrow> b ! r' ! ?c \<noteq> 0"
  proof (intro allI impI)
    fix r' assume a: "?k - 1 < r' \<and> r' < length b"
    then have "\<not> r' < ?k" by arith
    with e[of r'] a show "b ! r' ! ?c \<noteq> 0" by simp
  qed
  from k c show "dropToken column player b = (Inr (), b[?k - 1 := (b ! (?k - 1))[?c := player]])"
    by (simp add: dropToken_cases[OF rect] emptyCount_def Let_def)
qed

text \<open>
  Gravity is needed there. \<^verbatim>\<open>dropToken\<close> writes the row whose index is the number of
  empty cells of the column less one, not the last empty row the filter found. On a board with
  a token above empty cells, which no sequence of drops produces, the two differ: here the
  token lands in row 1 and row 2 stays empty.
\<close>

lemma dropToken_without_gravity:
  "snd (dropToken 0 2 [[1, 0], [0, 0], [0, 0]]) = [[1, 0], [2, 0], [0, 0]]"
  by code_simp

subsection \<open>Rejected drops\<close>

text \<open>
  Claim C6. In any grid, when a valid column holds no empty cell, \<^verbatim>\<open>dropToken\<close> into it
  returns without writing: every cell of the grid is as it was.
\<close>

theorem full_column_rejected:
  assumes "rectangular b"
    and "0 \<le> column" and "column < int (length (b ! 0))"
    and "\<forall>row \<in> set b. row ! nat column \<noteq> 0"
  shows "dropToken column player b = (Inr (), b)"
proof -
  from assms(4) have "\<not> 0 < emptyCount b (nat column)"
    by (simp add: emptyCount_def filter_empty_conv)
  with assms(2,3) show ?thesis
    by (simp add: dropToken_cases[OF assms(1)] emptyCount_def Let_def)
qed

theorem full_column_rejected_witness:
  "dropTokens [(0, 1), (0, 2), (0, 1), (0, 2), (0, 1), (0, 2)] GameBoard =
     [[2, 0, 0, 0, 0, 0, 0], [1, 0, 0, 0, 0, 0, 0], [2, 0, 0, 0, 0, 0, 0],
      [1, 0, 0, 0, 0, 0, 0], [2, 0, 0, 0, 0, 0, 0], [1, 0, 0, 0, 0, 0, 0]] \<and>
   dropToken 0 1 [[2, 0, 0, 0, 0, 0, 0], [1, 0, 0, 0, 0, 0, 0], [2, 0, 0, 0, 0, 0, 0],
                  [1, 0, 0, 0, 0, 0, 0], [2, 0, 0, 0, 0, 0, 0], [1, 0, 0, 0, 0, 0, 0]] =
     (Inr (), [[2, 0, 0, 0, 0, 0, 0], [1, 0, 0, 0, 0, 0, 0], [2, 0, 0, 0, 0, 0, 0],
               [1, 0, 0, 0, 0, 0, 0], [2, 0, 0, 0, 0, 0, 0], [1, 0, 0, 0, 0, 0, 0]])"
proof -
  let ?b = "[[2, 0, 0, 0, 0, 0, 0], [1, 0, 0, 0, 0, 0, 0], [2, 0, 0, 0, 0, 0, 0],
             [1, 0, 0, 0, 0, 0, 0], [2, 0, 0, 0, 0, 0, 0], [1, 0, 0, 0, 0, 0, 0::nat]]"
  have reach: "dropTokens [(0, 1), (0, 2), (0, 1), (0, 2), (0, 1), (0, 2)] GameBoard = ?b"
    by code_simp
  have h1: "rectangular ?b" by code_simp
  have h2: "(0::int) \<le> 0" by simp
  have h3: "(0::int) < int (length (?b ! 0))" by simp
  have h4: "\<forall>row \<in> set ?b. row ! nat 0 \<noteq> 0" by simp
  from reach full_column_rejected[OF h1 h2 h3 h4, of 1] show ?thesis by simp
qed

text \<open>
  Claim C4, as stated, fails: with a column outside the board, \<^verbatim>\<open>row[column]\<close> is
  \<^verbatim>\<open>undefined\<close> and \<^verbatim>\<open>getValue\<close> on it throws. \<^verbatim>\<open>dropToken\<close> has no range check and
  does not return normally.
\<close>

theorem out_of_range_counterexample:
  "fst (dropToken 7 1 GameBoard) = Inl TypeError \<and> fst (dropToken (- 1) 1 GameBoard) = Inl TypeError"
  by code_simp

text \<open>
  Claim C4, amended. On every grid with at least one row and rows of one width, a column index
  below 0 or not below the width makes \<^verbatim>\<open>dropToken\<close> throw a TypeError; the throw comes
  before any write, so no cell of the grid changes.
\<close>

theorem out_of_range_throws:
  assumes "rectangular b" and "column < 0 \<or> int (length (b ! 0)) \<le> column"
  shows "dropToken column player b = (Inl TypeError, b)"
proof -
  from assms(2) have "\<not> (0 \<le> column \<and> column < int (length (b ! 0)))" by linarith
  then show ?thesis by (simp add: dropToken_cases[OF assms(1)])
qed

theorem out_of_range_throws_witness:
  "dropToken 7 2 GameBoard = (Inl TypeError, GameBoard) \<and>
   dropToken (- 1) 2 GameBoard = (Inl TypeError, GameBoard)"
proof -
  have h7: "(7::int) < 0 \<or> int (length (GameBoard ! 0)) \<le> 7"
    by (simp add: GameBoard_size)
  have hm: "(- 1::int) < 0 \<or> int (length (GameBoard ! 0)) \<le> - 1"
    by simp
  from out_of_range_throws[OF GameBoard_rectangular h7, of 2]
    out_of_range_throws[OF GameBoard_rectangular hm, of 2]
  show ?thesis by simp
qed

subsection \<open>Accepted drops\<close>

text \<open>
  Claim C10. On every board that \<^verbatim>\<open>dropToken\<close> calls reach from the fresh board, a drop into
  a column of the board that still has an empty cell returns normally, writes the player into
  the empty cell of greatest row index of that column (every cell below it is occupied), and
  leaves every other cell and the 6 by 7 shape as they were.
\<close>

theorem accepted_drop_frame:
  assumes b: "b = dropTokens calls GameBoard"
    and c: "0 \<le> column" "column < 7"
    and e: "\<exists>row \<in> set b. row ! nat column = 0"
  shows "\<exists>r < 6.
      b ! r ! nat column = 0 \<and>
      (\<forall>r'. r < r' \<and> r' < 6 \<longrightarrow> b ! r' ! nat column \<noteq> 0) \<and>
      fst (dropToken column player b) = Inr () \<and>
      snd (dropToken column player b) ! r ! nat column = player \<and>
      (\<forall>r2 c2. r2 < 6 \<and> c2 < 7 \<and> (r2 \<noteq> r \<or> c2 \<noteq> nat column) \<longrightarrow>
         snd (dropToken column player b) ! r2 ! c2 = b ! r2 ! c2) \<and>
      length (snd (dropToken column player b)) = 6 \<and>
      (\<forall>row \<in> set (snd (dropToken column player b)). length row = 7)"
proof -
  let ?c = "nat column"
  let ?r = "emptyCount b ?c - 1"
  let ?b' = "snd (dropToken column player b)"
  have rect: "rectangular b" and g: "gravity b" and len: "length b = 6" and w: "length (b ! 0) = 7"
    unfolding b by (rule reachable_board)+
  from c w have cw: "column < int (length (b ! 0))" and cn: "?c < 7" by simp_all
  from e have k: "0 < emptyCount b ?c"
    by (simp add: emptyCount_def filter_empty_conv)
  note acc = accepted_drop[OF rect g c(1) cw k]
  have upd: "?b' = b[?r := (b ! ?r)[?c := player]]" and ok: "fst (dropToken column player b) = Inr ()"
    using acc(4)[of player] by simp_all
  have wr: "\<And>r. r < 6 \<Longrightarrow> length (b ! r) = 7"
    using rectangular_width[OF rect] len w by simp
  have cell: "\<And>r2 c2. r2 < 6 \<Longrightarrow> c2 < 7 \<Longrightarrow>
      ?b' ! r2 ! c2 = (if r2 = ?r \<and> c2 = ?c then player else b ! r2 ! c2)"
    unfolding upd using nth_drop_update[of _ b] len wr by simp
  have rect': "rectangular ?b'" and len': "length ?b' = 6" and w': "length (?b' ! 0) = 7"
    using dropToken_rectangular[OF rect, of column player] len w by simp_all
  have rows': "\<forall>row \<in> set ?b'. length row = 7"
    using rect' w' unfolding rectangular_def by metis
  from acc(1) len have r6: "?r < 6" by simp
  have "b ! ?r ! ?c = 0" by (rule acc(2))
  moreover have "\<forall>r'. ?r < r' \<and> r' < 6 \<longrightarrow> b ! r' ! ?c \<noteq> 0" using acc(3) len by simp
  moreover have "?b' ! ?r ! ?c = player" using cell[OF r6 cn] by simp
  moreover have "\<forall>r2 c2. r2 < 6 \<and> c2 < 7 \<and> (r2 \<noteq> ?r \<or> c2 \<noteq> ?c) \<longrightarrow> ?b' ! r2 ! c2 = b ! r2 ! c2"
    using cell by auto
  ultimately show ?thesis using r6 ok len' rows' by blast
qed


theorem accepted_drop_frame_witness:
  "(\<exists>row \<in> set (dropTokens [(3, 1)] GameBoard). row ! nat 3 = 0) \<and>
   dropTokens [(3, 1)] GameBoard ! 5 ! 3 = 1 \<and>
   fst (dropToken 3 2 (dropTokens [(3, 1)] GameBoard)) = Inr () \<and>
   snd (dropToken 3 2 (dropTokens [(3, 1)] GameBoard)) ! 4 ! 3 = 2 \<and>
   length (snd (dropToken 3 2 (dropTokens [(3, 1)] GameBoard))) = 6"
proof -
  let ?b = "dropTokens [(3, 1)] GameBoard"
  have e: "\<exists>row \<in> set ?b. row ! nat 3 = 0" by code_simp
  have c: "(0::int) \<le> 3" "(3::int) < 7" by simp_all
  from accepted_drop_frame[OF refl c e, of 2]
  have "fst (dropToken 3 2 ?b) = Inr () \<and> length (snd (dropToken 3 2 ?b)) = 6"
    by blast
  moreover have "?b ! 5 ! 3 = 1" by code_simp
  moreover have "snd (dropToken 3 2 ?b) ! 4 ! 3 = 2" by code_simp
  ultimately show ?thesis using e by blast
qed

subsection \<open>Gravity\<close>

lemma emptyCount_drop:
  assumes rect: "rectangular b" and g: "gravity b"
    and c: "0 \<le> column" "column < int (length (b ! 0))"
    and k: "0 < emptyCount b (nat column)" and p: "player \<noteq> 0"
  shows "emptyCount (snd (dropToken column player b)) (nat column) = emptyCount b (nat column) - 1"
proof -
  let ?c = "nat column"
  let ?k = "emptyCount b ?c"
  let ?b' = "snd (dropToken column player b)"
  let ?k' = "emptyCount ?b' ?c"
  from c have cw: "?c < length (b ! 0)" by linarith
  note acc = accepted_drop[OF rect g c k]
  have upd: "?b' = b[?k - 1 := (b ! (?k - 1))[?c := player]]"
    using acc(4)[of player] by simp
  have rect': "rectangular ?b'" and len': "length ?b' = length b" and w': "length (?b' ! 0) = length (b ! 0)"
    by (rule dropToken_rectangular[OF rect])+
  have g': "gravity ?b'" by (rule dropToken_gravity[OF rect g])
  have old: "\<And>r. r < length b \<Longrightarrow> (b ! r ! ?c = 0) = (r < ?k)"
    using column_empty_iff[OF g cw] by (simp add: emptyCount_def)
  have new: "\<And>r. r < length b \<Longrightarrow> (?b' ! r ! ?c = 0) = (r < ?k')"
    using column_empty_iff[OF g', of ?c] cw w' len' by (simp add: emptyCount_def)
  have cell: "\<And>r. r < length b \<Longrightarrow> ?b' ! r ! ?c = (if r = ?k - 1 then player else b ! r ! ?c)"
    unfolding upd using nth_drop_update[of _ b ?c] rectangular_width[OF rect] cw by simp
  have iff: "\<And>r. r < length b \<Longrightarrow> (r < ?k') = (r < ?k - 1)"
  proof -
    fix r assume r: "r < length b"
    have "(r < ?k') = (?b' ! r ! ?c = 0)" using new[OF r] by simp
    also have "\<dots> = (r \<noteq> ?k - 1 \<and> b ! r ! ?c = 0)" using cell[OF r] p by simp
    also have "\<dots> = (r \<noteq> ?k - 1 \<and> r < ?k)" using old[OF r] by simp
    also have "\<dots> = (r < ?k - 1)" by arith
    finally show "(r < ?k') = (r < ?k - 1)" .
  qed
  have le': "?k' \<le> length b" using emptyCount_le[of ?b' ?c] len' by simp
  have lt: "?k - 1 < length b" by (rule acc(1))
  show "?k' = ?k - 1"
  proof (rule ccontr)
    assume ne: "?k' \<noteq> ?k - 1"
    show False
    proof (cases "?k' < ?k - 1")
      case True
      with lt have "?k' < length b" by arith
      from iff[OF this] True show False by simp
    next
      case False
      with ne have "?k - 1 < ?k'" by arith
      with iff[OF lt] show False by simp
    qed
  qed
qed

lemma drops_fill:
  assumes "rectangular b" and "gravity b" and "c < length (b ! 0)"
    and "\<forall>p \<in> set ps. p \<noteq> 0" and "length ps \<le> emptyCount b c"
  shows "emptyCount (dropTokens (map (\<lambda>p. (int c, p)) ps) b) c = emptyCount b c - length ps"
  using assms
proof (induction ps arbitrary: b)
  case Nil
  then show ?case by simp
next
  case (Cons p ps)
  let ?b1 = "snd (dropToken (int c) p b)"
  have c: "0 \<le> int c" "int c < int (length (b ! 0))" using Cons.prems(3) by simp_all
  have k: "0 < emptyCount b (nat (int c))" using Cons.prems(5) by simp
  have p: "p \<noteq> 0" using Cons.prems(4) by simp
  have e1: "emptyCount ?b1 c = emptyCount b c - 1"
    using emptyCount_drop[OF Cons.prems(1,2) c k p] by simp
  have r1: "rectangular ?b1" "length (?b1 ! 0) = length (b ! 0)"
    using dropToken_rectangular[OF Cons.prems(1)] by blast+
  have g1: "gravity ?b1" by (rule dropToken_gravity[OF Cons.prems(1,2)])
  have "emptyCount (dropTokens (map (\<lambda>p. (int c, p)) ps) ?b1) c = emptyCount ?b1 c - length ps"
  proof (rule Cons.IH[OF r1(1) g1])
    show "c < length (?b1 ! 0)" using r1(2) Cons.prems(3) by simp
    show "\<forall>p \<in> set ps. p \<noteq> 0" using Cons.prems(4) by simp
    show "length ps \<le> emptyCount ?b1 c" using e1 Cons.prems(5) by simp
  qed
  with e1 show ?case by simp
qed


lemma dropTokens_append: "dropTokens (xs @ ys) b = dropTokens ys (dropTokens xs b)"
  by (induction xs arbitrary: b) auto

lemma empty_column_fill:
  assumes b: "b = dropTokens calls GameBoard" and c: "c < 7"
    and e: "\<forall>row \<in> set b. row ! c = 0"
    and ps: "\<forall>p \<in> set ps. p \<noteq> 0" and n: "length ps \<le> 6"
    and r: "r < 6"
  shows "(dropTokens (map (\<lambda>p. (int c, p)) ps) b ! r ! c \<noteq> 0) = (6 - length ps \<le> r)"
proof -
  let ?b' = "dropTokens (map (\<lambda>p. (int c, p)) ps) b"
  have rect: "rectangular b" and g: "gravity b" and len: "length b = 6" and w: "length (b ! 0) = 7"
    unfolding b by (rule reachable_board)+
  have b': "?b' = dropTokens (calls @ map (\<lambda>p. (int c, p)) ps) GameBoard"
    unfolding b by (simp add: dropTokens_append)
  have g': "gravity ?b'" and len': "length ?b' = 6" and w': "length (?b' ! 0) = 7"
    unfolding b' by (rule reachable_board)+
  from e have "filter (\<lambda>row. row ! c = 0) b = b" by simp
  then have all: "emptyCount b c = 6" using len by (simp add: emptyCount_def)
  have "emptyCount ?b' c = emptyCount b c - length ps"
    using drops_fill[OF rect g _ ps] c w n all by simp
  with all have k': "emptyCount ?b' c = 6 - length ps" by simp
  have "(?b' ! r ! c = 0) = (r < emptyCount ?b' c)"
    using column_empty_iff[OF g', of c r] c r w' len' by (simp add: emptyCount_def)
  with k' show ?thesis by auto
qed

text \<open>
  Claim C2. For every board \<open>b\<close> reached from the fresh board by a sequence of
  \<^verbatim>\<open>dropToken\<close> calls: (1) no column has an empty cell below an occupied one; (2) a drop
  into a column that has an empty cell writes exactly the empty cell of greatest row index of
  that column; (3) after \<open>N \<le> 6\<close> drops of player tokens into a column that was empty,
  exactly the bottom \<open>N\<close> rows of the column are occupied.
\<close>

theorem gravity_invariant:
  assumes b: "b = dropTokens calls GameBoard"
  shows "(\<forall>c r r'. c < 7 \<and> r < r' \<and> r' < 6 \<and> b ! r ! c \<noteq> 0 \<longrightarrow> b ! r' ! c \<noteq> 0) \<and>
    (\<forall>column player. 0 \<le> column \<and> column < 7 \<and> (\<exists>row \<in> set b. row ! nat column = 0) \<longrightarrow>
       (\<exists>r < 6. b ! r ! nat column = 0 \<and>
          (\<forall>r'. r < r' \<and> r' < 6 \<longrightarrow> b ! r' ! nat column \<noteq> 0) \<and>
          dropToken column player b = (Inr (), b[r := (b ! r)[nat column := player]]))) \<and>
    (\<forall>c ps r. c < 7 \<and> (\<forall>row \<in> set b. row ! c = 0) \<and> (\<forall>p \<in> set ps. p \<noteq> 0) \<and>
         length ps \<le> 6 \<and> r < 6 \<longrightarrow>
       (dropTokens (map (\<lambda>p. (int c, p)) ps) b ! r ! c \<noteq> 0) = (6 - length ps \<le> r))"
proof (intro conjI)
  have rect: "rectangular b" and g: "gravity b" and len: "length b = 6" and w: "length (b ! 0) = 7"
    unfolding b by (rule reachable_board)+
  from g len w show "\<forall>c r r'. c < 7 \<and> r < r' \<and> r' < 6 \<and> b ! r ! c \<noteq> 0 \<longrightarrow> b ! r' ! c \<noteq> 0"
    by (simp add: gravity_iff)
  show "\<forall>column player. 0 \<le> column \<and> column < 7 \<and> (\<exists>row \<in> set b. row ! nat column = 0) \<longrightarrow>
       (\<exists>r < 6. b ! r ! nat column = 0 \<and>
          (\<forall>r'. r < r' \<and> r' < 6 \<longrightarrow> b ! r' ! nat column \<noteq> 0) \<and>
          dropToken column player b = (Inr (), b[r := (b ! r)[nat column := player]]))"
  proof (intro allI impI)
    fix column player
    assume a: "0 \<le> column \<and> column < 7 \<and> (\<exists>row \<in> set b. row ! nat column = 0)"
    then have c: "0 \<le> column" "column < int (length (b ! 0))" using w by simp_all
    from a have k: "0 < emptyCount b (nat column)"
      by (simp add: emptyCount_def filter_empty_conv)
    note acc = accepted_drop[OF rect g c k]
    let ?r = "emptyCount b (nat column) - 1"
    have "?r < 6" using acc(1) len by simp
    moreover have "b ! ?r ! nat column = 0" by (rule acc(2))
    moreover have "\<forall>r'. ?r < r' \<and> r' < 6 \<longrightarrow> b ! r' ! nat column \<noteq> 0"
      using acc(3) len by simp
    moreover have "dropToken column player b = (Inr (), b[?r := (b ! ?r)[nat column := player]])"
      by (rule acc(4))
    ultimately show "\<exists>r < 6. b ! r ! nat column = 0 \<and>
          (\<forall>r'. r < r' \<and> r' < 6 \<longrightarrow> b ! r' ! nat column \<noteq> 0) \<and>
          dropToken column player b = (Inr (), b[r := (b ! r)[nat column := player]])"
      by blast
  qed
  show "\<forall>c ps r. c < 7 \<and> (\<forall>row \<in> set b. row ! c = 0) \<and> (\<forall>p \<in> set ps. p \<noteq> 0) \<and>
         length ps \<le> 6 \<and> r < 6 \<longrightarrow>
       (dropTokens (map (\<lambda>p. (int c, p)) ps) b ! r ! c \<noteq> 0) = (6 - length ps \<le> r)"
    using empty_column_fill[OF b] by blast
qed


theorem gravity_invariant_witness:
  "dropTokens [(0, 1), (0, 2)] GameBoard ! 4 ! 0 \<noteq> 0 \<and>
   dropTokens [(0, 1), (0, 2)] GameBoard ! 5 ! 0 \<noteq> 0 \<and>
   (\<exists>row \<in> set (dropTokens [(0, 1), (0, 2)] GameBoard). row ! nat 0 = 0) \<and>
   fst (dropToken 0 1 (dropTokens [(0, 1), (0, 2)] GameBoard)) = Inr () \<and>
   snd (dropToken 0 1 (dropTokens [(0, 1), (0, 2)] GameBoard)) ! 3 ! 0 = 1 \<and>
   dropTokens (map (\<lambda>p. (int 3, p)) [1, 2, 1]) (dropTokens [(0, 1), (0, 2)] GameBoard) ! 3 ! 3 \<noteq> 0 \<and>
   dropTokens (map (\<lambda>p. (int 3, p)) [1, 2, 1]) (dropTokens [(0, 1), (0, 2)] GameBoard) ! 2 ! 3 = 0"
proof -
  let ?b = "dropTokens [(0, 1), (0, 2)] GameBoard"
  note inv = gravity_invariant[OF refl, of "[(0, 1), (0, 2)]"]
  have h1: "(0::nat) < 7 \<and> (4::nat) < 5 \<and> (5::nat) < 6 \<and> ?b ! 4 ! 0 \<noteq> 0" by code_simp
  from inv[THEN conjunct1, rule_format, OF h1] have c1: "?b ! 5 ! 0 \<noteq> 0" .
  have h2: "(0::int) \<le> 0 \<and> (0::int) < 7 \<and> (\<exists>row \<in> set ?b. row ! nat 0 = 0)" by code_simp
  from inv[THEN conjunct2, THEN conjunct1, rule_format, OF h2, of 1]
  have c2: "fst (dropToken 0 1 ?b) = Inr ()" by auto
  have h3: "(3::nat) < 7 \<and> (\<forall>row \<in> set ?b. row ! 3 = 0) \<and> (\<forall>p \<in> set [1, 2, 1::nat]. p \<noteq> 0) \<and>
       length [1, 2, 1::nat] \<le> 6 \<and> (3::nat) < 6" by code_simp
  from inv[THEN conjunct2, THEN conjunct2, rule_format, OF h3]
  have c3: "dropTokens (map (\<lambda>p. (int 3, p)) [1, 2, 1]) ?b ! 3 ! 3 \<noteq> 0" by simp
  have h4: "(3::nat) < 7 \<and> (\<forall>row \<in> set ?b. row ! 3 = 0) \<and> (\<forall>p \<in> set [1, 2, 1::nat]. p \<noteq> 0) \<and>
       length [1, 2, 1::nat] \<le> 6 \<and> (2::nat) < 6" by code_simp
  from inv[THEN conjunct2, THEN conjunct2, rule_format, OF h4]
  have c4: "dropTokens (map (\<lambda>p. (int 3, p)) [1, 2, 1]) ?b ! 2 ! 3 = 0" by simp
  have c5: "snd (dropToken 0 1 ?b) ! 3 ! 0 = 1" by code_simp
  from h1 h2 c1 c2 c3 c4 c5 show ?thesis by blast
qed

subsection \<open>Win and tie detection\<close>

lemma getValue_inside:
  assumes "rectangular b" and "0 \<le> r" and "r < int (length b)" and "0 \<le> c" and "c < int (length (b ! 0))"
  shows "getValue b r c = Inr (b ! nat r ! nat c)"
proof -
  from assms(2,3) have "nat r < length b" by linarith
  from rectangular_width[OF assms(1) this] assms show ?thesis by (simp add: getValue_def)
qed

lemma countLoop_counts:
  assumes "rectangular b"
  shows "countLoop b (length b) (length (b ! 0)) tok r c dr dc is count =
     Inr (count + length (filter (\<lambda>i. cellMatches tok b (int r + dr * int i) (int c + dc * int i)) is))"
proof (induction "is" arbitrary: count)
  case Nil
  then show ?case by simp
next
  case (Cons i "is")
  show ?case
  proof (cases "0 \<le> int r + dr * int i \<and> int r + dr * int i < int (length b) \<and>
                0 \<le> int c + dc * int i \<and> int c + dc * int i < int (length (b ! 0))")
    case True
    then have "getValue b (int r + dr * int i) (int c + dc * int i) =
        Inr (b ! nat (int r + dr * int i) ! nat (int c + dc * int i))"
      using getValue_inside[OF assms] by blast
    with True Cons.IH show ?thesis by (simp add: Let_def cellMatches_def)
  next
    case False
    then have "\<not> cellMatches tok b (int r + dr * int i) (int c + dc * int i)"
      by (auto simp: cellMatches_def)
    with False Cons.IH show ?thesis by (auto simp add: Let_def)
  qed
qed

lemma filter_all: "(length xs \<le> length (filter P xs)) = (\<forall>x \<in> set xs. P x)"
proof
  assume le: "length xs \<le> length (filter P xs)"
  show "\<forall>x \<in> set xs. P x"
  proof
    fix x assume "x \<in> set xs"
    show "P x"
    proof (rule ccontr)
      assume "\<not> P x"
      with \<open>x \<in> set xs\<close> have "length (filter P xs) < length xs" by (rule length_filter_less)
      with le show False by simp
    qed
  qed
next
  assume "\<forall>x \<in> set xs. P x"
  then have "filter P xs = xs" by simp
  then show "length xs \<le> length (filter P xs)" by simp
qed

lemma directionsLoop_finds:
  assumes "rectangular b"
  shows "directionsLoop b (length b) (length (b ! 0)) tok r c ds =
     Inr (\<exists>(dr, dc) \<in> set ds. \<forall>i \<in> set [0..<4].
            cellMatches tok b (int r + dr * int i) (int c + dc * int i))"
proof (induction ds)
  case Nil
  then show ?case by simp
next
  case (Cons d ds)
  obtain dr dc where d: "d = (dr, dc)" by (cases d)
  let ?P = "\<lambda>i. cellMatches tok b (int r + dr * int i) (int c + dc * int i)"
  have "(4 \<le> length (filter ?P [0..<4])) = (\<forall>i \<in> set [0..<4]. ?P i)"
    using filter_all[of "[0..<4]" ?P] by simp
  with Cons.IH d show ?case
    by (auto simp add: countLoop_counts[OF assms] simp del: upt_Suc set_upt)
qed


lemma winColumnLoop_finds:
  assumes "rectangular b" and "r < length b"
  shows "\<forall>c \<in> set cs. c < length (b ! 0) \<Longrightarrow>
     winColumnLoop b (length b) (length (b ! 0)) tok r cs =
     Inr (\<exists>c \<in> set cs. b ! r ! c = tok \<and>
            (\<exists>(dr, dc) \<in> set directions. \<forall>i \<in> set [0..<4].
               cellMatches tok b (int r + dr * int i) (int c + dc * int i)))"
proof (induction cs)
  case Nil
  then show ?case by simp
next
  case (Cons c cs)
  then have c: "c < length (b ! 0)" and cs: "\<forall>c \<in> set cs. c < length (b ! 0)" by simp_all
  have v: "getValue b (int r) (int c) = Inr (b ! r ! c)"
    using getValue_inside[OF assms(1), of "int r" "int c"] assms(2) c by simp
  show ?case
    using Cons.IH[OF cs] v
    by (auto simp add: directionsLoop_finds[OF assms(1)] simp del: upt_Suc set_upt split: bool.splits)
qed

lemma winRowLoop_finds:
  assumes "rectangular b"
  shows "\<forall>r \<in> set rs. r < length b \<Longrightarrow>
     winRowLoop b (length b) (length (b ! 0)) tok rs =
     Inr (\<exists>r \<in> set rs. \<exists>c \<in> set [0..<length (b ! 0)]. b ! r ! c = tok \<and>
            (\<exists>(dr, dc) \<in> set directions. \<forall>i \<in> set [0..<4].
               cellMatches tok b (int r + dr * int i) (int c + dc * int i)))"
proof (induction rs)
  case Nil
  then show ?case by simp
next
  case (Cons r rs)
  then have r: "r < length b" and rs: "\<forall>r \<in> set rs. r < length b" by simp_all
  have cols: "\<forall>c \<in> set [0..<length (b ! 0)]. c < length (b ! 0)" by simp
  define C where "C = (\<lambda>r. \<exists>c \<in> set [0..<length (b ! 0)]. b ! r ! c = tok \<and>
            (\<exists>(dr, dc) \<in> set directions. \<forall>i \<in> set [0..<4].
               cellMatches tok b (int r + dr * int i) (int c + dc * int i)))"
  have col: "winColumnLoop b (length b) (length (b ! 0)) tok r [0..<length (b ! 0)] = Inr (C r)"
    unfolding C_def by (rule winColumnLoop_finds[OF assms r cols])
  have ih: "winRowLoop b (length b) (length (b ! 0)) tok rs = Inr (\<exists>r \<in> set rs. C r)"
    unfolding C_def by (rule Cons.IH[OF rs])
  have "winRowLoop b (length b) (length (b ! 0)) tok (r # rs) = Inr (\<exists>r' \<in> set (r # rs). C r')"
    unfolding winRowLoop.simps col ih by (cases "C r") simp_all
  then show ?case unfolding C_def .
qed

lemma start_cell_matches:
  assumes "r < length b" and "c < length (b ! 0)"
    and "\<forall>i \<in> set [0..<4]. cellMatches tok b (int r + dr * int i) (int c + dc * int i)"
  shows "b ! r ! c = tok"
proof -
  have "(0::nat) \<in> set [0..<4]" by simp
  with assms(3) have "cellMatches tok b (int r + dr * int 0) (int c + dc * int 0)" by blast
  then show ?thesis by (simp add: cellMatches_def)
qed

lemma checkWin_rectangular:
  assumes "rectangular b"
  shows "checkWin tok b = Inr (lineOfFour tok b)"
proof -
  obtain row0 rest where b: "b = row0 # rest"
    using rectangular_nonempty[OF assms] by (cases b) auto
  then have row0: "length row0 = length (b ! 0)" by simp
  have rows: "\<forall>r \<in> set [0..<length b]. r < length b" by simp
  have "checkWin tok b = winRowLoop b (length b) (length (b ! 0)) tok [0..<length b]"
    unfolding checkWin_def using b by (simp add: Let_def)
  also have "\<dots> = Inr (\<exists>r \<in> set [0..<length b]. \<exists>c \<in> set [0..<length (b ! 0)]. b ! r ! c = tok \<and>
            (\<exists>(dr, dc) \<in> set directions. \<forall>i \<in> set [0..<4].
               cellMatches tok b (int r + dr * int i) (int c + dc * int i)))"
    by (rule winRowLoop_finds[OF assms rows])
  also have "\<dots> = Inr (lineOfFour tok b)"
  proof -
    let ?L = "\<lambda>r c. \<exists>(dr, dc) \<in> set directions. \<forall>i \<in> set [0..<4].
               cellMatches tok b (int r + dr * int i) (int c + dc * int i)"
    have key: "b ! r ! c = tok"
      if "r \<in> set [0..<length b]" and "c \<in> set [0..<length (b ! 0)]" and "?L r c" for r c
    proof -
      from that(3) obtain dr dc where
        "\<forall>i \<in> set [0..<4]. cellMatches tok b (int r + dr * int i) (int c + dc * int i)"
        by blast
      moreover from that(1,2) have "r < length b" "c < length (b ! 0)" by simp_all
      ultimately show ?thesis using start_cell_matches by blast
    qed
    have "(\<exists>r \<in> set [0..<length b]. \<exists>c \<in> set [0..<length (b ! 0)]. b ! r ! c = tok \<and> ?L r c) =
          (\<exists>r \<in> set [0..<length b]. \<exists>c \<in> set [0..<length (b ! 0)]. ?L r c)"
      using key by blast
    then show ?thesis unfolding lineOfFour_def by (simp only:)
  qed
  finally show ?thesis .
qed


lemma tieColumnLoop_counts:
  assumes "rectangular b" and "r < length b"
  shows "\<forall>c \<in> set cs. c < length (b ! 0) \<Longrightarrow>
     tieColumnLoop b r cs count = Inr (count + length (filter (\<lambda>c. b ! r ! c = 0) cs))"
proof (induction cs arbitrary: count)
  case Nil
  then show ?case by simp
next
  case (Cons c cs)
  then have c: "c < length (b ! 0)" and cs: "\<forall>c \<in> set cs. c < length (b ! 0)" by simp_all
  have v: "getValue b (int r) (int c) = Inr (b ! r ! c)"
    using getValue_inside[OF assms(1), of "int r" "int c"] assms(2) c by simp
  show ?case using Cons.IH[OF cs] v by simp
qed

lemma tieRowLoop_counts:
  assumes "rectangular b"
  shows "\<forall>r \<in> set rs. r < length b \<Longrightarrow>
     tieRowLoop b (length (b ! 0)) rs count =
     Inr (count + sum_list (map (\<lambda>r. length (filter (\<lambda>c. b ! r ! c = 0) [0..<length (b ! 0)])) rs))"
proof (induction rs arbitrary: count)
  case Nil
  then show ?case by simp
next
  case (Cons r rs)
  then have r: "r < length b" and rs: "\<forall>r \<in> set rs. r < length b" by simp_all
  have cols: "\<forall>c \<in> set [0..<length (b ! 0)]. c < length (b ! 0)" by simp
  show ?case
    using Cons.IH[OF rs] tieColumnLoop_counts[OF assms r cols]
    by (simp del: upt_Suc)
qed

lemma noEmptyCell_nth:
  assumes "rectangular b"
  shows "noEmptyCell b = (\<forall>r < length b. \<forall>c < length (b ! 0). b ! r ! c \<noteq> 0)"
proof -
  have "noEmptyCell b = (\<forall>r < length b. \<forall>c < length (b ! r). b ! r ! c \<noteq> 0)"
    unfolding noEmptyCell_def all_set_conv_all_nth ..
  also have "\<dots> = (\<forall>r < length b. \<forall>c < length (b ! 0). b ! r ! c \<noteq> 0)"
    using rectangular_width[OF assms] by auto
  finally show ?thesis .
qed

lemma checkTie_rectangular:
  assumes "rectangular b"
  shows "checkTie b = Inr (noEmptyCell b)"
proof -
  obtain row0 rest where b: "b = row0 # rest"
    using rectangular_nonempty[OF assms] by (cases b) auto
  have rows: "\<forall>r \<in> set [0..<length b]. r < length b" by simp
  let ?n = "sum_list (map (\<lambda>r. length (filter (\<lambda>c. b ! r ! c = 0) [0..<length (b ! 0)])) [0..<length b])"
  have loop: "tieRowLoop b (length (b ! 0)) [0..<length b] 0 = Inr ?n"
    using tieRowLoop_counts[OF assms rows, of 0] by simp
  have "checkTie b = (case tieRowLoop b (length (b ! 0)) [0..<length b] 0 of
          Inl e \<Rightarrow> Inl e | Inr count \<Rightarrow> if count = 0 then Inr True else Inr False)"
    unfolding checkTie_def using b by (simp add: Let_def)
  also have "\<dots> = Inr (?n = 0)" unfolding loop by simp
  also have "(?n = 0) = (\<forall>r < length b. \<forall>c < length (b ! 0). b ! r ! c \<noteq> 0)"
    by (auto simp add: filter_empty_conv simp del: upt_Suc)
  finally show ?thesis unfolding noEmptyCell_nth[OF assms] .
qed


lemma playRound_cases:
  assumes "rectangular (board s)"
  shows "playRound column s =
     (if \<not> (0 \<le> column \<and> column < int (length (board s ! 0))) then (Inl TypeError, s)
      else
        let b' = snd (dropToken column (token (activePlayer s)) (board s)); s1 = s\<lparr>board := b'\<rparr> in
        if lineOfFour (token (activePlayer s)) b' then (Inr Won, s1)
        else if noEmptyCell b' then (Inr Tied, s1)
        else (Inr NextRound, switchPlayerTurn s1))"
proof (cases "0 \<le> column \<and> column < int (length (board s ! 0))")
  case False
  then have "dropToken column (token (activePlayer s)) (board s) = (Inl TypeError, board s)"
    by (simp add: dropToken_cases[OF assms])
  with False show ?thesis by (simp add: playRound_def getActivePlayer_def)
next
  case True
  let ?tok = "token (activePlayer s)"
  define b' where "b' = snd (dropToken column ?tok (board s))"
  have ok: "dropToken column ?tok (board s) = (Inr (), b')"
    unfolding b'_def using True by (simp add: dropToken_cases[OF assms] Let_def)
  have rect': "rectangular b'" unfolding b'_def by (rule dropToken_rectangular(1)[OF assms])
  have w: "checkWin ?tok b' = Inr (lineOfFour ?tok b')" by (rule checkWin_rectangular[OF rect'])
  have t: "checkTie b' = Inr (noEmptyCell b')" by (rule checkTie_rectangular[OF rect'])
  have "playRound column s =
      (if lineOfFour ?tok b' then (Inr Won, s\<lparr>board := b'\<rparr>)
       else if noEmptyCell b' then (Inr Tied, s\<lparr>board := b'\<rparr>)
       else (Inr NextRound, switchPlayerTurn (s\<lparr>board := b'\<rparr>)))"
    unfolding playRound_def getActivePlayer_def ok using w t
    by (cases "lineOfFour ?tok b'"; cases "noEmptyCell b'") (simp_all add: Let_def)
  then show ?thesis using True unfolding b'_def by (simp add: Let_def)
qed

text \<open>
  Claim C1. On every grid with at least one row and rows of one width, \<^verbatim>\<open>checkWin\<close>
  returns true exactly when some cell (r, c) of the grid and one of the four directions
  (0,1), (1,0), (1,1), (1,-1) give four consecutive cells, inside the grid, that all hold the
  active player's token. So a line of exactly three does not count, and each of the four
  orientations does.
\<close>

theorem checkWin_line_of_four:
  assumes "rectangular b"
  shows "checkWin tok b = Inr (lineOfFour tok b)"
  by (rule checkWin_rectangular[OF assms])

theorem checkWin_line_of_four_witness:
  "checkWin 1 (dropTokens [(0, 1), (1, 1), (2, 1), (3, 1)] GameBoard) = Inr True \<and>
   checkWin 1 (dropTokens [(6, 1), (6, 1), (6, 1), (6, 1)] GameBoard) = Inr True \<and>
   checkWin 1 (dropTokens [(3, 1), (4, 2), (4, 1), (5, 2), (5, 2), (5, 1), (6, 2), (6, 2), (6, 2), (6, 1)] GameBoard) = Inr True \<and>
   checkWin 1 (dropTokens [(0, 1), (1, 2), (1, 1), (2, 2), (2, 2), (2, 1), (3, 2), (3, 2), (3, 2), (3, 1)] GameBoard) = Inr True \<and>
   checkWin 1 (dropTokens [(0, 1), (1, 1), (2, 1)] GameBoard) = Inr False \<and>
   checkWin 2 (dropTokens [(0, 1), (1, 2), (1, 1), (2, 2), (2, 2), (2, 1), (3, 2), (3, 2), (3, 2), (3, 1)] GameBoard) = Inr False"
proof -
  let ?h = "dropTokens [(0, 1), (1, 1), (2, 1), (3, 1)] GameBoard"
  let ?v = "dropTokens [(6, 1), (6, 1), (6, 1), (6, 1)] GameBoard"
  let ?l = "dropTokens [(3, 1), (4, 2), (4, 1), (5, 2), (5, 2), (5, 1), (6, 2), (6, 2), (6, 2), (6, 1)] GameBoard"
  let ?r = "dropTokens [(0, 1), (1, 2), (1, 1), (2, 2), (2, 2), (2, 1), (3, 2), (3, 2), (3, 2), (3, 1)] GameBoard"
  let ?t = "dropTokens [(0, 1), (1, 1), (2, 1)] GameBoard"
  note w = checkWin_line_of_four[OF reachable_board(1)]
  have "lineOfFour 1 ?h" by code_simp
  then have h: "checkWin 1 ?h = Inr True" by (simp only: w)
  have "lineOfFour 1 ?v" by code_simp
  then have v: "checkWin 1 ?v = Inr True" by (simp only: w)
  have "lineOfFour 1 ?l" by code_simp
  then have l: "checkWin 1 ?l = Inr True" by (simp only: w)
  have "lineOfFour 1 ?r" by code_simp
  then have r: "checkWin 1 ?r = Inr True" by (simp only: w)
  have "\<not> lineOfFour 1 ?t" by code_simp
  then have t: "checkWin 1 ?t = Inr False" by (simp only: w)
  have "\<not> lineOfFour 2 ?r" by code_simp
  then have r2: "checkWin 2 ?r = Inr False" by (simp only: w)
  from h v l r t r2 show ?thesis by blast
qed


text \<open>
  Claim C5. \<^verbatim>\<open>checkTie\<close> returns true exactly when the grid has no empty cell. In
  \<^verbatim>\<open>playRound\<close> with a column of the board, a grid that after the drop is full and holds a
  line of four of the active player is reported as won, not tied; and a tie is reported only
  when \<^verbatim>\<open>checkWin\<close> returned false on that grid (and the grid is full).
\<close>

theorem tie_only_after_win:
  assumes "rectangular b" and "rectangular (board s)"
    and "0 \<le> column" and "column < int (length (board s ! 0))"
  shows "checkTie b = Inr (noEmptyCell b) \<and>
    (noEmptyCell (snd (dropToken column (token (activePlayer s)) (board s))) \<and>
     lineOfFour (token (activePlayer s)) (snd (dropToken column (token (activePlayer s)) (board s))) \<longrightarrow>
       fst (playRound column s) = Inr Won \<and> fst (playRound column s) \<noteq> Inr Tied) \<and>
    (fst (playRound column s) = Inr Tied \<longrightarrow>
       checkWin (token (activePlayer s)) (snd (dropToken column (token (activePlayer s)) (board s))) = Inr False \<and>
       noEmptyCell (snd (dropToken column (token (activePlayer s)) (board s))))"
proof (intro conjI impI)
  let ?b' = "snd (dropToken column (token (activePlayer s)) (board s))"
  have rect': "rectangular ?b'" by (rule dropToken_rectangular(1)[OF assms(2)])
  note pr = playRound_cases[OF assms(2), of column]
  show "checkTie b = Inr (noEmptyCell b)" by (rule checkTie_rectangular[OF assms(1)])
  {
    assume "noEmptyCell ?b' \<and> lineOfFour (token (activePlayer s)) ?b'"
    with assms(3,4) show "fst (playRound column s) = Inr Won" and "fst (playRound column s) \<noteq> Inr Tied"
      by (simp_all add: pr Let_def)
  }
  {
    assume t: "fst (playRound column s) = Inr Tied"
    with assms(3,4) have "\<not> lineOfFour (token (activePlayer s)) ?b'"
      by (auto simp add: pr Let_def split: if_splits)
    then show "checkWin (token (activePlayer s)) ?b' = Inr False"
      by (simp add: checkWin_rectangular[OF rect'])
    from t assms(3,4) show "noEmptyCell ?b'"
      by (auto simp add: pr Let_def split: if_splits)
  }
qed

theorem tie_only_after_win_witness:
  "noEmptyCell (snd (dropToken 5 1 (board (playRounds fullGame (GameController None None))))) \<and>
   lineOfFour 1 (snd (dropToken 5 1 (board (playRounds fullGame (GameController None None))))) \<and>
   fst (playRound 5 (playRounds fullGame (GameController None None))) = Inr Won \<and>
   checkTie (board (playRounds fullGame (GameController None None))) = Inr False"
proof -
  let ?s = "playRounds fullGame (GameController None None)"
  have tok: "token (activePlayer ?s) = 1" by code_simp
  have rect: "rectangular (board ?s)" by code_simp
  have c: "(0::int) \<le> 5" "(5::int) < int (length (board ?s ! 0))" by code_simp+
  have full: "noEmptyCell (snd (dropToken 5 1 (board ?s)))" by code_simp
  have line: "lineOfFour 1 (snd (dropToken 5 1 (board ?s)))" by code_simp
  have notfull: "\<not> noEmptyCell (board ?s)" by code_simp
  note t = tie_only_after_win[OF rect rect c, unfolded tok]
  from t full line have "fst (playRound 5 ?s) = Inr Won" by blast
  moreover from t notfull have "checkTie (board ?s) = Inr False" by simp
  ultimately show ?thesis using full line by blast
qed

subsection \<open>Construction\<close>

text \<open>
  Claim C7. A controller constructed with default arguments has a grid of 6 rows of 7 cells,
  all empty (0), the players "Player One" with token 1 and "Player Two" with token 2, in this
  order, and player one is the active player.
\<close>

theorem new_game:
  "board (GameController None None) = replicate 6 (replicate 7 0) \<and>
   players (GameController None None) =
     [\<lparr>name = ''Player One'', token = 1\<rparr>, \<lparr>name = ''Player Two'', token = 2\<rparr>] \<and>
   activePlayer (GameController None None) = \<lparr>name = ''Player One'', token = 1\<rparr> \<and>
   getActivePlayer (GameController None None) = players (GameController None None) ! 0"
  by (simp add: GameController_def GameBoard_eq getActivePlayer_def)

text \<open>
  Claim C8, as stated, fails: \<^verbatim>\<open>GameBoard\<close> takes no dimensions and checks none. A call
  that passes 3 and 3, or 6 and 2, reports no error and creates the 6 by 7 grid.
\<close>

theorem no_dimension_parameters_counterexample:
  "GameBoardCall 3 3 = Inr (replicate 6 (replicate 7 0)) \<and>
   GameBoardCall 6 2 = Inr (replicate 6 (replicate 7 0))"
  by (simp add: GameBoardCall_def GameBoard_eq)

text \<open>
  Claim C8, amended. Grid construction has no dimension parameters and reports no
  configuration error: whatever a call passes, it returns the grid of 6 rows of 7 empty cells.
  Both dimensions are at least 4, so no grid too small for a line of four is created.
\<close>

theorem no_dimension_parameters:
  "GameBoardCall requestedRows requestedColumns = Inr GameBoard \<and>
   GameBoard = replicate 6 (replicate 7 0) \<and>
   4 \<le> length GameBoard \<and> list_all (\<lambda>row. 4 \<le> length row) GameBoard"
  by (simp add: GameBoardCall_def GameBoard_eq list_all_iff)

subsection \<open>The games that playRound calls reach\<close>

lemma GameController_invariant: "gameInvariant (GameController playerOneName playerTwoName)"
  unfolding gameInvariant_def
  by (simp add: GameController_def GameBoard_rectangular GameBoard_gravity GameBoard_size)
     (simp add: GameBoard_eq)

lemma cells_update:
  assumes "\<forall>row \<in> set b. \<forall>v \<in> set row. P v" and "P p"
  shows "\<forall>row \<in> set (b[k := (b ! k)[c := p]]). \<forall>v \<in> set row. P v"
proof (cases "k < length b")
  case False
  then have "length b \<le> k" by arith
  then have "b[k := (b ! k)[c := p]] = b" by (rule list_update_beyond)
  with assms(1) show ?thesis by (simp only:)
next
  case True
  then have bk: "b ! k \<in> set b" by simp
  show ?thesis
  proof (intro ballI)
    fix row v assume row: "row \<in> set (b[k := (b ! k)[c := p]])" and v: "v \<in> set row"
    from row have "row = (b ! k)[c := p] \<or> row \<in> set b"
      using set_update_subset_insert[of b k "(b ! k)[c := p]"] by auto
    then show "P v"
    proof
      assume "row = (b ! k)[c := p]"
      with v have "v = p \<or> v \<in> set (b ! k)"
        using set_update_subset_insert[of "b ! k" c p] by auto
      with assms bk show "P v" by blast
    next
      assume "row \<in> set b"
      with assms(1) v show "P v" by blast
    qed
  qed
qed

lemma dropToken_board:
  assumes "rectangular b"
  shows "snd (dropToken column player b) = b \<or>
     (0 \<le> column \<and> column < int (length (b ! 0)) \<and> 0 < emptyCount b (nat column) \<and>
      snd (dropToken column player b) =
        b[emptyCount b (nat column) - 1 := (b ! (emptyCount b (nat column) - 1))[nat column := player]])"
  by (simp add: dropToken_cases[OF assms] emptyCount_def Let_def)

text \<open>The board after a round is the board after the drop; the players stay.\<close>

lemma playRound_board:
  assumes "rectangular (board s)"
  shows "board (snd (playRound column s)) = snd (dropToken column (token (activePlayer s)) (board s))"
    and "players (snd (playRound column s)) = players s"
    and "activePlayer (snd (playRound column s)) = activePlayer s \<or>
         activePlayer (snd (playRound column s)) =
           (if activePlayer s = players s ! 0 then players s ! 1 else players s ! 0)"
proof -
  have inv: "snd (dropToken column (token (activePlayer s)) (board s)) = board s"
    if "\<not> (0 \<le> column \<and> column < int (length (board s ! 0)))"
    using that by (simp add: dropToken_cases[OF assms])
  show "board (snd (playRound column s)) = snd (dropToken column (token (activePlayer s)) (board s))"
    using inv by (auto simp add: playRound_cases[OF assms] Let_def switchPlayerTurn_def)
  show "players (snd (playRound column s)) = players s"
    by (simp add: playRound_cases[OF assms] Let_def switchPlayerTurn_def)
  show "activePlayer (snd (playRound column s)) = activePlayer s \<or>
         activePlayer (snd (playRound column s)) =
           (if activePlayer s = players s ! 0 then players s ! 1 else players s ! 0)"
    by (simp add: playRound_cases[OF assms] Let_def switchPlayerTurn_def)
qed

lemma playRound_invariant:
  assumes "gameInvariant s"
  shows "gameInvariant (snd (playRound column s))"
proof -
  let ?tok = "token (activePlayer s)"
  let ?b' = "snd (dropToken column ?tok (board s))"
  let ?s' = "snd (playRound column s)"
  from assms have rect: "rectangular (board s)" and g: "gravity (board s)"
    and len: "length (board s) = 6" and w: "length (board s ! 0) = 7"
    and cells: "\<forall>row \<in> set (board s). \<forall>v \<in> set row. v = 0 \<or> v = 1 \<or> v = 2"
    and pl: "length (players s) = 2" "token (players s ! 0) = 1" "token (players s ! 1) = 2"
    and act: "activePlayer s = players s ! 0 \<or> activePlayer s = players s ! 1"
    unfolding gameInvariant_def by blast+
  from act pl have tok: "?tok = 0 \<or> ?tok = 1 \<or> ?tok = 2" by auto
  have b: "board ?s' = ?b'" and p: "players ?s' = players s" by (rule playRound_board[OF rect])+
  have "rectangular ?b'" "length ?b' = 6" "length (?b' ! 0) = 7"
    using dropToken_rectangular[OF rect, of column ?tok] len w by simp_all
  moreover have "gravity ?b'" by (rule dropToken_gravity[OF rect g])
  moreover have "\<forall>row \<in> set ?b'. \<forall>v \<in> set row. v = 0 \<or> v = 1 \<or> v = 2"
    using dropToken_board[OF rect, of column ?tok] cells
      cells_update[where P = "\<lambda>v. v = 0 \<or> v = 1 \<or> v = 2", OF cells tok]
    by metis
  moreover have "activePlayer ?s' = players s ! 0 \<or> activePlayer ?s' = players s ! 1"
    using playRound_board(3)[OF rect, of column] act by auto
  ultimately show ?thesis
    unfolding gameInvariant_def b p using pl by blast
qed

lemma playRounds_invariant: "gameInvariant s \<Longrightarrow> gameInvariant (playRounds cs s)"
  by (induction cs arbitrary: s) (simp_all add: playRound_invariant)


lemma reachable_game:
  "gameInvariant (playRounds cs (GameController playerOneName playerTwoName))"
  by (rule playRounds_invariant[OF GameController_invariant])

lemma invariant_players:
  assumes "gameInvariant s"
  shows "players s ! 0 \<noteq> players s ! 1"
    and "token (activePlayer s) = 1 \<or> token (activePlayer s) = 2"
    and "(if activePlayer s = players s ! 0 then players s ! 1 else players s ! 0) \<noteq> activePlayer s"
    and "(if activePlayer s = players s ! 0 then players s ! 1 else players s ! 0) \<in> set (players s)"
proof -
  from assms have pl: "length (players s) = 2" "token (players s ! 0) = 1" "token (players s ! 1) = 2"
    and act: "activePlayer s = players s ! 0 \<or> activePlayer s = players s ! 1"
    unfolding gameInvariant_def by blast+
  from pl show ne: "players s ! 0 \<noteq> players s ! 1" by auto
  from act pl show "token (activePlayer s) = 1 \<or> token (activePlayer s) = 2" by auto
  from act ne show "(if activePlayer s = players s ! 0 then players s ! 1 else players s ! 0) \<noteq> activePlayer s"
    by auto
  from pl(1) have "players s ! 0 \<in> set (players s)" "players s ! 1 \<in> set (players s)" by simp_all
  then show "(if activePlayer s = players s ! 0 then players s ! 1 else players s ! 0) \<in> set (players s)"
    by simp
qed

subsection \<open>Turns\<close>

text \<open>
  Claim C3, as stated, fails in its second half. After six rounds in column 0 the column is
  full and player one is active. A seventh \<^verbatim>\<open>playRound(0)\<close> is rejected by
  \<^verbatim>\<open>dropToken\<close> (the board is unchanged), yet the turn passes to player two:
  \<^verbatim>\<open>dropToken\<close> returns nothing that \<^verbatim>\<open>playRound\<close> could test.
\<close>

theorem rejected_drop_counterexample:
  "list_all (\<lambda>row. row ! 0 \<noteq> 0) (board (playRounds [0, 0, 0, 0, 0, 0] (GameController None None))) \<and>
   board (snd (playRound 0 (playRounds [0, 0, 0, 0, 0, 0] (GameController None None)))) =
     board (playRounds [0, 0, 0, 0, 0, 0] (GameController None None)) \<and>
   name (activePlayer (playRounds [0, 0, 0, 0, 0, 0] (GameController None None))) = ''Player One'' \<and>
   name (activePlayer (snd (playRound 0 (playRounds [0, 0, 0, 0, 0, 0] (GameController None None))))) =
     ''Player Two''"
  by code_simp

text \<open>
  Claim C3, amended. In every game reached by \<^verbatim>\<open>playRound\<close> calls from a new
  controller, for a column of the board: the board after the round is the board after the
  drop (unchanged when the column is full); if that board is neither a win of the active
  player nor full, the active player toggles to the other player, whether the drop was
  accepted or rejected; if it is a win or full, the active player stays. For a column outside
  the board \<^verbatim>\<open>playRound\<close> throws a TypeError and the game is unchanged.
\<close>

theorem turn_after_round:
  assumes s: "s = playRounds cs (GameController playerOneName playerTwoName)"
  shows
   "(0 \<le> column \<and> column < 7 \<longrightarrow>
       board (snd (playRound column s)) = snd (dropToken column (token (activePlayer s)) (board s)) \<and>
       ((\<forall>row \<in> set (board s). row ! nat column \<noteq> 0) \<longrightarrow>
          board (snd (playRound column s)) = board s)) \<and>
    (0 \<le> column \<and> column < 7 \<and>
     \<not> lineOfFour (token (activePlayer s)) (board (snd (playRound column s))) \<and>
     \<not> noEmptyCell (board (snd (playRound column s))) \<longrightarrow>
       fst (playRound column s) = Inr NextRound \<and>
       activePlayer (snd (playRound column s)) =
         (if activePlayer s = players s ! 0 then players s ! 1 else players s ! 0) \<and>
       activePlayer (snd (playRound column s)) \<noteq> activePlayer s \<and>
       activePlayer (snd (playRound column s)) \<in> set (players s)) \<and>
    (0 \<le> column \<and> column < 7 \<and>
     (lineOfFour (token (activePlayer s)) (board (snd (playRound column s))) \<or>
      noEmptyCell (board (snd (playRound column s)))) \<longrightarrow>
       activePlayer (snd (playRound column s)) = activePlayer s) \<and>
    (column < 0 \<or> 7 \<le> column \<longrightarrow> playRound column s = (Inl TypeError, s))"
proof -
  have inv: "gameInvariant s" unfolding s by (rule reachable_game)
  then have rect: "rectangular (board s)" and w: "length (board s ! 0) = 7"
    unfolding gameInvariant_def by blast+
  let ?tok = "token (activePlayer s)"
  let ?b' = "snd (dropToken column ?tok (board s))"
  let ?s' = "snd (playRound column s)"
  have b: "board ?s' = ?b'" by (rule playRound_board(1)[OF rect])
  note pr = playRound_cases[OF rect, of column, unfolded w]
  note pl = invariant_players[OF inv]
  have full: "?b' = board s" if "0 \<le> column \<and> column < 7" and "\<forall>row \<in> set (board s). row ! nat column \<noteq> 0"
  proof -
    from that(1) w have "0 \<le> column" "column < int (length (board s ! 0))" by simp_all
    from dropToken_valid[OF rectangular_valid[OF rect this]] that(2)
    show ?thesis by (simp add: filter_empty_conv)
  qed
  have A: "0 \<le> column \<and> column < 7 \<longrightarrow>
       board ?s' = ?b' \<and> ((\<forall>row \<in> set (board s). row ! nat column \<noteq> 0) \<longrightarrow> board ?s' = board s)"
    using b full by simp
  have B: "0 \<le> column \<and> column < 7 \<and> \<not> lineOfFour ?tok (board ?s') \<and> \<not> noEmptyCell (board ?s') \<longrightarrow>
       fst (playRound column s) = Inr NextRound \<and>
       activePlayer ?s' = (if activePlayer s = players s ! 0 then players s ! 1 else players s ! 0) \<and>
       activePlayer ?s' \<noteq> activePlayer s \<and> activePlayer ?s' \<in> set (players s)"
  proof
    assume a: "0 \<le> column \<and> column < 7 \<and> \<not> lineOfFour ?tok (board ?s') \<and> \<not> noEmptyCell (board ?s')"
    then have n: "\<not> lineOfFour ?tok ?b'" "\<not> noEmptyCell ?b'" unfolding b by blast+
    from a n have "playRound column s = (Inr NextRound, switchPlayerTurn (s\<lparr>board := ?b'\<rparr>))"
      by (simp add: pr Let_def)
    then have "fst (playRound column s) = Inr NextRound"
      and "activePlayer ?s' = (if activePlayer s = players s ! 0 then players s ! 1 else players s ! 0)"
      by (simp_all add: switchPlayerTurn_def)
    with pl(3,4) show "fst (playRound column s) = Inr NextRound \<and>
       activePlayer ?s' = (if activePlayer s = players s ! 0 then players s ! 1 else players s ! 0) \<and>
       activePlayer ?s' \<noteq> activePlayer s \<and> activePlayer ?s' \<in> set (players s)"
      by (simp only:) simp
  qed
  have C: "0 \<le> column \<and> column < 7 \<and> (lineOfFour ?tok (board ?s') \<or> noEmptyCell (board ?s')) \<longrightarrow>
       activePlayer ?s' = activePlayer s"
    unfolding b by (auto simp add: pr Let_def)
  have D: "column < 0 \<or> 7 \<le> column \<longrightarrow> playRound column s = (Inl TypeError, s)"
    by (auto simp add: pr)
  from A B C D show ?thesis by blast
qed


theorem turn_after_round_witness:
  "board (snd (playRound 0 (playRounds [0, 0, 0, 0, 0, 0] (GameController None None)))) =
     board (playRounds [0, 0, 0, 0, 0, 0] (GameController None None)) \<and>
   fst (playRound 0 (playRounds [0, 0, 0, 0, 0, 0] (GameController None None))) = Inr NextRound \<and>
   activePlayer (snd (playRound 0 (playRounds [0, 0, 0, 0, 0, 0] (GameController None None)))) \<noteq>
     activePlayer (playRounds [0, 0, 0, 0, 0, 0] (GameController None None)) \<and>
   fst (playRound 1 (GameController None None)) = Inr NextRound \<and>
   activePlayer (snd (playRound 1 (GameController None None))) \<noteq> activePlayer (GameController None None) \<and>
   activePlayer (snd (playRound 0 (playRounds [0, 6, 0, 6, 0, 6] (GameController None None)))) =
     activePlayer (playRounds [0, 6, 0, 6, 0, 6] (GameController None None)) \<and>
   playRound 7 (playRounds [0, 0, 0, 0, 0, 0] (GameController None None)) =
     (Inl TypeError, playRounds [0, 0, 0, 0, 0, 0] (GameController None None))"
proof -
  let ?s0 = "playRounds [] (GameController None None)"
  let ?s6 = "playRounds [0, 0, 0, 0, 0, 0] (GameController None None)"
  let ?sw = "playRounds [0, 6, 0, 6, 0, 6] (GameController None None)"
  note t6 = turn_after_round[OF refl, where column = 0 and cs = "[0, 0, 0, 0, 0, 0]"
      and playerOneName = None and playerTwoName = None]
  note t0 = turn_after_round[OF refl, where column = 1 and cs = "[]"
      and playerOneName = None and playerTwoName = None]
  note tw = turn_after_round[OF refl, where column = 0 and cs = "[0, 6, 0, 6, 0, 6]"
      and playerOneName = None and playerTwoName = None]
  note t7 = turn_after_round[OF refl, where column = 7 and cs = "[0, 0, 0, 0, 0, 0]"
      and playerOneName = None and playerTwoName = None]
  have hA: "(0::int) \<le> 0 \<and> (0::int) < 7" by simp
  have hfull: "\<forall>row \<in> set (board ?s6). row ! nat 0 \<noteq> 0" by code_simp
  from t6[THEN conjunct1, THEN mp, OF hA, THEN conjunct2, THEN mp, OF hfull]
  have a: "board (snd (playRound 0 ?s6)) = board ?s6" .
  have hB: "(0::int) \<le> 0 \<and> (0::int) < 7 \<and>
      \<not> lineOfFour (token (activePlayer ?s6)) (board (snd (playRound 0 ?s6))) \<and>
      \<not> noEmptyCell (board (snd (playRound 0 ?s6)))" by code_simp
  from t6[THEN conjunct2, THEN conjunct1, THEN mp, OF hB]
  have b: "fst (playRound 0 ?s6) = Inr NextRound"
    "activePlayer (snd (playRound 0 ?s6)) \<noteq> activePlayer ?s6" by blast+
  have hB0: "(0::int) \<le> 1 \<and> (1::int) < 7 \<and>
      \<not> lineOfFour (token (activePlayer ?s0)) (board (snd (playRound 1 ?s0))) \<and>
      \<not> noEmptyCell (board (snd (playRound 1 ?s0)))" by code_simp
  from t0[THEN conjunct2, THEN conjunct1, THEN mp, OF hB0]
  have b0: "fst (playRound 1 ?s0) = Inr NextRound"
    "activePlayer (snd (playRound 1 ?s0)) \<noteq> activePlayer ?s0" by blast+
  have hC: "(0::int) \<le> 0 \<and> (0::int) < 7 \<and>
      (lineOfFour (token (activePlayer ?sw)) (board (snd (playRound 0 ?sw))) \<or>
       noEmptyCell (board (snd (playRound 0 ?sw))))" by code_simp
  from tw[THEN conjunct2, THEN conjunct2, THEN conjunct1, THEN mp, OF hC]
  have c: "activePlayer (snd (playRound 0 ?sw)) = activePlayer ?sw" .
  have hD: "(7::int) < 0 \<or> (7::int) \<le> 7" by simp
  from t7[THEN conjunct2, THEN conjunct2, THEN conjunct2, THEN mp, OF hD]
  have d: "playRound 7 ?s6 = (Inl TypeError, ?s6)" .
  have s0: "?s0 = GameController None None" by simp
  from a b b0[unfolded s0] c d show ?thesis by blast
qed

subsection \<open>Cells\<close>

lemma step_keeps_cell:
  assumes inv: "gameInvariant s" and r: "r < 6" and c: "c < 7" and v: "board s ! r ! c \<noteq> 0"
  shows "board (snd (playRound column s)) ! r ! c = board s ! r ! c"
proof -
  from inv have rect: "rectangular (board s)" and g: "gravity (board s)"
    and len: "length (board s) = 6" and w: "length (board s ! 0) = 7"
    unfolding gameInvariant_def by blast+
  let ?tok = "token (activePlayer s)"
  let ?k = "emptyCount (board s) (nat column)"
  have b: "board (snd (playRound column s)) = snd (dropToken column ?tok (board s))"
    by (rule playRound_board(1)[OF rect])
  from dropToken_board[OF rect, of column ?tok] show ?thesis
  proof
    assume "snd (dropToken column ?tok (board s)) = board s"
    with b show ?thesis by simp
  next
    assume a: "0 \<le> column \<and> column < int (length (board s ! 0)) \<and> 0 < ?k \<and>
      snd (dropToken column ?tok (board s)) =
        (board s)[?k - 1 := (board s ! (?k - 1))[nat column := ?tok]]"
    then have e: "board s ! (?k - 1) ! nat column = 0"
      using accepted_drop(2)[OF rect g] by blast
    have rl: "r < length (board s)" using r len by simp
    have cl: "c < length (board s ! r)" using rectangular_width[OF rect rl] w c by simp
    have "board (snd (playRound column s)) ! r ! c =
        (if r = ?k - 1 \<and> c = nat column then ?tok else board s ! r ! c)"
      unfolding b using a nth_drop_update[OF rl cl] by simp
    with e v show ?thesis by auto
  qed
qed

lemma rounds_keep_cell:
  "gameInvariant s \<Longrightarrow> r < 6 \<Longrightarrow> c < 7 \<Longrightarrow> board s ! r ! c \<noteq> 0 \<Longrightarrow>
   board (playRounds cs s) ! r ! c = board s ! r ! c"
proof (induction cs arbitrary: s)
  case Nil
  then show ?case by simp
next
  case (Cons column cs)
  let ?s1 = "snd (playRound column s)"
  have k: "board ?s1 ! r ! c = board s ! r ! c"
    by (rule step_keeps_cell[OF Cons.prems])
  have "board (playRounds cs ?s1) ! r ! c = board ?s1 ! r ! c"
    using Cons.IH[OF playRound_invariant[OF Cons.prems(1)] Cons.prems(2,3)] k Cons.prems(4) by simp
  with k show ?case by simp
qed

text \<open>
  Claim C9. In every game reached by \<^verbatim>\<open>playRound\<close> calls from a new controller, every
  cell holds 0, 1 or 2; a cell that is not empty keeps its value through every further
  sequence of \<^verbatim>\<open>playRound\<close> calls; and one call either leaves the board as it was or
  writes the active player's token (1 or 2) into one cell that was empty.
\<close>

theorem cells_never_revert:
  assumes s: "s = playRounds cs (GameController playerOneName playerTwoName)"
    and r: "r < 6" and c: "c < 7"
  shows "(board s ! r ! c = 0 \<or> board s ! r ! c = 1 \<or> board s ! r ! c = 2) \<and>
    (board s ! r ! c \<noteq> 0 \<longrightarrow> board (playRounds cs' s) ! r ! c = board s ! r ! c) \<and>
    (board (snd (playRound column s)) = board s \<or>
     (\<exists>r' c'. r' < 6 \<and> c' < 7 \<and> board s ! r' ! c' = 0 \<and>
        (token (activePlayer s) = 1 \<or> token (activePlayer s) = 2) \<and>
        board (snd (playRound column s)) = (board s)[r' := (board s ! r')[c' := token (activePlayer s)]]))"
proof (intro conjI impI)
  have inv: "gameInvariant s" unfolding s by (rule reachable_game)
  then have rect: "rectangular (board s)" and g: "gravity (board s)"
    and len: "length (board s) = 6" and w: "length (board s ! 0) = 7"
    and cells: "\<forall>row \<in> set (board s). \<forall>v \<in> set row. v = 0 \<or> v = 1 \<or> v = 2"
    unfolding gameInvariant_def by blast+
  have rl: "r < length (board s)" using r len by simp
  have cl: "c < length (board s ! r)" using rectangular_width[OF rect rl] w c by simp
  from rl cl have "board s ! r \<in> set (board s)" "board s ! r ! c \<in> set (board s ! r)" by simp_all
  with cells show "board s ! r ! c = 0 \<or> board s ! r ! c = 1 \<or> board s ! r ! c = 2" by blast
  show "board (playRounds cs' s) ! r ! c = board s ! r ! c" if "board s ! r ! c \<noteq> 0"
    by (rule rounds_keep_cell[OF inv r c that])
  let ?tok = "token (activePlayer s)"
  let ?k = "emptyCount (board s) (nat column)"
  have b: "board (snd (playRound column s)) = snd (dropToken column ?tok (board s))"
    by (rule playRound_board(1)[OF rect])
  from dropToken_board[OF rect, of column ?tok]
  show "board (snd (playRound column s)) = board s \<or>
     (\<exists>r' c'. r' < 6 \<and> c' < 7 \<and> board s ! r' ! c' = 0 \<and> (?tok = 1 \<or> ?tok = 2) \<and>
        board (snd (playRound column s)) = (board s)[r' := (board s ! r')[c' := ?tok]])"
  proof
    assume "snd (dropToken column ?tok (board s)) = board s"
    with b show ?thesis by simp
  next
    assume a: "0 \<le> column \<and> column < int (length (board s ! 0)) \<and> 0 < ?k \<and>
      snd (dropToken column ?tok (board s)) =
        (board s)[?k - 1 := (board s ! (?k - 1))[nat column := ?tok]]"
    then have "?k - 1 < 6" "board s ! (?k - 1) ! nat column = 0"
      using accepted_drop(1,2)[OF rect g] len by auto
    moreover from a w have "nat column < 7" by linarith
    moreover have "?tok = 1 \<or> ?tok = 2" by (rule invariant_players(2)[OF inv])
    moreover from a b have "board (snd (playRound column s)) =
        (board s)[?k - 1 := (board s ! (?k - 1))[nat column := ?tok]]" by simp
    ultimately show ?thesis by blast
  qed
qed


theorem cells_never_revert_witness:
  "board (playRounds [3] (GameController None None)) ! 5 ! 3 = 1 \<and>
   board (playRounds [3, 3, 0] (playRounds [3] (GameController None None))) ! 5 ! 3 =
     board (playRounds [3] (GameController None None)) ! 5 ! 3 \<and>
   board (playRounds [3, 3, 0] (playRounds [3] (GameController None None))) ! 3 ! 3 = 1 \<and>
   board (snd (playRound 3 (playRounds [3] (GameController None None)))) ! 4 ! 3 = 2"
proof -
  let ?s = "playRounds [3] (GameController None None)"
  have r: "(5::nat) < 6" and c: "(3::nat) < 7" by simp_all
  note t = cells_never_revert[OF refl r c, where cs = "[3]" and cs' = "[3, 3, 0]" and column = 3
      and playerOneName = None and playerTwoName = None]
  have v: "board ?s ! 5 ! 3 = 1" by code_simp
  then have nz: "board ?s ! 5 ! 3 \<noteq> 0" by simp
  from t[THEN conjunct2, THEN conjunct1, THEN mp, OF nz]
  have keep: "board (playRounds [3, 3, 0] ?s) ! 5 ! 3 = board ?s ! 5 ! 3" .
  have w1: "board (playRounds [3, 3, 0] ?s) ! 3 ! 3 = 1" by code_simp
  have w2: "board (snd (playRound 3 ?s)) ! 4 ! 3 = 2" by code_simp
  from v keep w1 w2 show ?thesis by blast
qed

end
